theory Spec2Isabelle
  imports Complex_Main
begin

section \<open>JavaScript numbers\<close>

text \<open>
  The picker is TypeScript; every \<^verbatim>\<open>number\<close> it handles is an IEEE double. The
  model keeps the values that matter for the comparisons of the validator: \<open>NaN\<close>, the
  two infinities and the finite values as exact rationals (rounding is outside the model;
  all finite values that occur below are integers or quotients of integers by 60000).
\<close>

datatype number = NaN | NegInfinity | Num rat | PosInfinity

text \<open>The relational operators of the language. Every comparison with \<open>NaN\<close> is false.\<close>

fun num_lt :: "number \<Rightarrow> number \<Rightarrow> bool" where
  "num_lt (Num a) (Num b) = (a < b)"
| "num_lt NegInfinity (Num b) = True"
| "num_lt NegInfinity PosInfinity = True"
| "num_lt (Num a) PosInfinity = True"
| "num_lt a b = False"

definition num_gt :: "number \<Rightarrow> number \<Rightarrow> bool" where
  "num_gt a b = num_lt b a"

definition num_le :: "number \<Rightarrow> number \<Rightarrow> bool" where
  "num_le a b = (a \<noteq> NaN \<and> b \<noteq> NaN \<and> \<not> num_lt b a)"

definition num_ge :: "number \<Rightarrow> number \<Rightarrow> bool" where
  "num_ge a b = (a \<noteq> NaN \<and> b \<noteq> NaN \<and> \<not> num_lt a b)"

text \<open>Strict equality \<^verbatim>\<open>===\<close> on numbers: \<open>NaN\<close> differs from itself.\<close>

definition num_eq :: "number \<Rightarrow> number \<Rightarrow> bool" where
  "num_eq a b = (a \<noteq> NaN \<and> a = b)"

fun num_add :: "number \<Rightarrow> number \<Rightarrow> number" where
  "num_add (Num a) (Num b) = Num (a + b)"
| "num_add NaN b = NaN"
| "num_add a NaN = NaN"
| "num_add PosInfinity NegInfinity = NaN"
| "num_add NegInfinity PosInfinity = NaN"
| "num_add PosInfinity b = PosInfinity"
| "num_add a PosInfinity = PosInfinity"
| "num_add NegInfinity b = NegInfinity"
| "num_add a NegInfinity = NegInfinity"

section \<open>The built-in Date object\<close>

text \<open>
  A \<^verbatim>\<open>Date\<close> holds a time value: an integral number of milliseconds since the epoch
  with absolute value at most 8.64e15, or \<open>NaN\<close> (an invalid date). The functions below
  are the abstract operations of the language specification (section "Date Objects"),
  over the integers.
\<close>

datatype date = InvalidDate | Date int

definition msPerDay :: int where "msPerDay = 86400000"
definition msPerHour :: int where "msPerHour = 3600000"
definition msPerMinute :: int where "msPerMinute = 60000"
definition msPerSecond :: int where "msPerSecond = 1000"

definition Day :: "int \<Rightarrow> int" where
  "Day t = t div msPerDay"

definition TimeWithinDay :: "int \<Rightarrow> int" where
  "TimeWithinDay t = t mod msPerDay"

definition DaysInYear :: "int \<Rightarrow> int" where
  "DaysInYear y =
     (if y mod 4 \<noteq> 0 then 365
      else if y mod 100 \<noteq> 0 then 366
      else if y mod 400 \<noteq> 0 then 365
      else 366)"

definition DayFromYear :: "int \<Rightarrow> int" where
  "DayFromYear y =
     365 * (y - 1970) + (y - 1969) div 4 - (y - 1901) div 100 + (y - 1601) div 400"

text \<open>
  \<open>YearFromTime t\<close> is the largest year \<open>y\<close> whose first day is not after \<open>t\<close>. The year
  lies within one of the estimate \<open>1970 + 400 * Day t div 146097\<close> (a mean Gregorian year
  has 146097/400 days), so the largest of three candidates is taken
  (\<open>YearFromDay_correct\<close> and \<open>YearFromDay_unique\<close> below).
\<close>

definition YearFromDay :: "int \<Rightarrow> int" where
  "YearFromDay d =
     (let y0 = 1970 + (400 * d) div 146097 in
      if DayFromYear (y0 + 1) \<le> d then y0 + 1
      else if DayFromYear y0 \<le> d then y0
      else y0 - 1)"

definition YearFromTime :: "int \<Rightarrow> int" where
  "YearFromTime t = YearFromDay (Day t)"

definition InLeapYear :: "int \<Rightarrow> int" where
  "InLeapYear t = (if DaysInYear (YearFromTime t) = 366 then 1 else 0)"

definition DayWithinYear :: "int \<Rightarrow> int" where
  "DayWithinYear t = Day t - DayFromYear (YearFromTime t)"

definition MonthFromTime :: "int \<Rightarrow> int" where
  "MonthFromTime t =
     (let d = DayWithinYear t; l = InLeapYear t in
      if d < 31 then 0
      else if d < 59 + l then 1
      else if d < 90 + l then 2
      else if d < 120 + l then 3
      else if d < 151 + l then 4
      else if d < 181 + l then 5
      else if d < 212 + l then 6
      else if d < 243 + l then 7
      else if d < 273 + l then 8
      else if d < 304 + l then 9
      else if d < 334 + l then 10
      else 11)"

definition DateFromTime :: "int \<Rightarrow> int" where
  "DateFromTime t =
     (let d = DayWithinYear t; l = InLeapYear t; m = MonthFromTime t in
      if m = 0 then d + 1
      else if m = 1 then d - 30
      else if m = 2 then d - 58 - l
      else if m = 3 then d - 89 - l
      else if m = 4 then d - 119 - l
      else if m = 5 then d - 150 - l
      else if m = 6 then d - 180 - l
      else if m = 7 then d - 211 - l
      else if m = 8 then d - 242 - l
      else if m = 9 then d - 272 - l
      else if m = 10 then d - 303 - l
      else d - 333 - l)"

definition HourFromTime :: "int \<Rightarrow> int" where
  "HourFromTime t = (t div msPerHour) mod 24"

definition MinFromTime :: "int \<Rightarrow> int" where
  "MinFromTime t = (t div msPerMinute) mod 60"

definition MakeTime :: "int \<Rightarrow> int \<Rightarrow> int \<Rightarrow> int \<Rightarrow> int" where
  "MakeTime hour minute sec ms =
     hour * msPerHour + minute * msPerMinute + sec * msPerSecond + ms"

text \<open>Days of the year before the first of month \<open>mn\<close> (0-based), \<open>l\<close> the leap day.\<close>

definition DaysBeforeMonth :: "int \<Rightarrow> int \<Rightarrow> int" where
  "DaysBeforeMonth l mn =
     (if mn = 0 then 0
      else if mn = 1 then 31
      else if mn = 2 then 59 + l
      else if mn = 3 then 90 + l
      else if mn = 4 then 120 + l
      else if mn = 5 then 151 + l
      else if mn = 6 then 181 + l
      else if mn = 7 then 212 + l
      else if mn = 8 then 243 + l
      else if mn = 9 then 273 + l
      else if mn = 10 then 304 + l
      else 334 + l)"

text \<open>
  \<open>MakeDay\<close> carries a month outside 0..11 into the year and lets the day of the month
  run over freely: it is the day number of the first of the month plus \<open>date - 1\<close>.
\<close>

definition MakeDay :: "int \<Rightarrow> int \<Rightarrow> int \<Rightarrow> int" where
  "MakeDay year month dt =
     (let ym = year + month div 12; mn = month mod 12 in
      DayFromYear ym + DaysBeforeMonth (if DaysInYear ym = 366 then 1 else 0) mn + dt - 1)"

definition MakeDate :: "int \<Rightarrow> int \<Rightarrow> int" where
  "MakeDate day time = day * msPerDay + time"

text \<open>\<^verbatim>\<open>new Date(value)\<close>: a time value beyond the range gives an invalid date.\<close>

definition TimeClip :: "int \<Rightarrow> date" where
  "TimeClip t = (if \<bar>t\<bar> > 8640000000000000 then InvalidDate else Date t)"

text \<open>
  \<^verbatim>\<open>new Date(Date.UTC(year, month, day, hour, minute, second))\<close> for integral
  arguments. A year from 0 to 99 means 1900 + year.
\<close>

definition Date_UTC :: "int \<Rightarrow> int \<Rightarrow> int \<Rightarrow> int \<Rightarrow> int \<Rightarrow> int \<Rightarrow> date" where
  "Date_UTC year month day hour minute second =
     (let yr = (if 0 \<le> year \<and> year \<le> 99 then 1900 + year else year) in
      TimeClip (MakeDate (MakeDay yr month day) (MakeTime hour minute second 0)))"

fun getTime :: "date \<Rightarrow> number" where
  "getTime InvalidDate = NaN"
| "getTime (Date t) = Num (of_int t)"

fun getUTCFullYear :: "date \<Rightarrow> number" where
  "getUTCFullYear InvalidDate = NaN"
| "getUTCFullYear (Date t) = Num (of_int (YearFromTime t))"

fun getUTCMonth :: "date \<Rightarrow> number" where
  "getUTCMonth InvalidDate = NaN"
| "getUTCMonth (Date t) = Num (of_int (MonthFromTime t))"

fun getUTCDate :: "date \<Rightarrow> number" where
  "getUTCDate InvalidDate = NaN"
| "getUTCDate (Date t) = Num (of_int (DateFromTime t))"

fun getUTCHours :: "date \<Rightarrow> number" where
  "getUTCHours InvalidDate = NaN"
| "getUTCHours (Date t) = Num (of_int (HourFromTime t))"

fun getUTCMinutes :: "date \<Rightarrow> number" where
  "getUTCMinutes InvalidDate = NaN"
| "getUTCMinutes (Date t) = Num (of_int (MinFromTime t))"

text \<open>\<^verbatim>\<open>d.setUTCHours(0, 0, 0, 0)\<close>, returning the date that \<open>d\<close> becomes.\<close>

fun setUTCHours0 :: "date \<Rightarrow> date" where
  "setUTCHours0 InvalidDate = InvalidDate"
| "setUTCHours0 (Date t) = TimeClip (MakeDate (Day t) (MakeTime 0 0 0 0))"

text \<open>
  \<^verbatim>\<open>d.setUTCDate(dt)\<close>, returning the date that \<open>d\<close> becomes; the argument is
  truncated to an integer, and a non-finite argument invalidates the date.
\<close>

fun setUTCDate :: "date \<Rightarrow> number \<Rightarrow> date" where
  "setUTCDate (Date t) (Num dt) =
     TimeClip (MakeDate (MakeDay (YearFromTime t) (MonthFromTime t)
                 (if dt < 0 then - \<lfloor>- dt\<rfloor> else \<lfloor>dt\<rfloor>)) (TimeWithinDay t))"
| "setUTCDate d dt = InvalidDate"

text \<open>The relational operators on dates compare the time values.\<close>

definition date_lt :: "date \<Rightarrow> date \<Rightarrow> bool" where
  "date_lt a b = num_lt (getTime a) (getTime b)"

definition date_gt :: "date \<Rightarrow> date \<Rightarrow> bool" where
  "date_gt a b = num_gt (getTime a) (getTime b)"

definition date_le :: "date \<Rightarrow> date \<Rightarrow> bool" where
  "date_le a b = num_le (getTime a) (getTime b)"

definition date_ge :: "date \<Rightarrow> date \<Rightarrow> bool" where
  "date_ge a b = num_ge (getTime a) (getTime b)"


section \<open>Strings\<close>

text \<open>
  \<^verbatim>\<open>s.split(sep)\<close> for a separator of one character: the pieces of \<open>s\<close> between the
  occurrences of \<open>sep\<close>, always at least one piece.
\<close>

fun split_on :: "char \<Rightarrow> string \<Rightarrow> string list" where
  "split_on sep [] = [[]]"
| "split_on sep (c # cs) =
     (if c = sep then [] # split_on sep cs
      else (case split_on sep cs of
              [] \<Rightarrow> [[c]]
            | p # ps \<Rightarrow> (c # p) # ps))"

section \<open>Types of the picker (types.ts)\<close>

record DateTimeRange =
  start :: "date option"
  end' :: "date option"

record ConstraintConfig =
  minDate :: "date option"
  maxDate :: "date option"
  minTime :: "string option"
  maxTime :: "string option"
  blackoutDates :: "date list option"
  minDuration :: "number option"
  maxDuration :: "number option"

datatype error_type =
  min_date | max_date | min_time | max_time | blackout
| min_duration | max_duration | invalid_range

text \<open>
  The messages are template strings; the model keeps the template and the value
  interpolated into it, not the rendered text (which depends on the host's locale).
\<close>

datatype message =
  Start_date_must_be_after date
| End_date_must_be_before date
| Start_date_is_not_available
| End_date_is_not_available
| Selected_range_contains_unavailable_dates
| Start_date_must_be_before_end_date
| Minimum_duration_is number
| Maximum_duration_is number
| Start_time_must_be_after string
| End_time_must_be_before string

record ValidationError =
  type :: error_type
  message :: message

text \<open>The empty constraint object \<^verbatim>\<open>{}\<close>.\<close>

definition no_constraints :: ConstraintConfig where
  "no_constraints =
     \<lparr>minDate = None, maxDate = None, minTime = None, maxTime = None,
      blackoutDates = None, minDuration = None, maxDuration = None\<rparr>"

section \<open>Date utilities (utils/date.ts)\<close>

definition startOfDay :: "date \<Rightarrow> date" where
  "startOfDay d = setUTCHours0 d"

definition isSameDay :: "date \<Rightarrow> date \<Rightarrow> bool" where
  "isSameDay date1 date2 =
     (num_eq (getUTCFullYear date1) (getUTCFullYear date2) \<and>
      num_eq (getUTCMonth date1) (getUTCMonth date2) \<and>
      num_eq (getUTCDate date1) (getUTCDate date2))"

record Time =
  hours :: number
  minutes :: number

text \<open>
  \<open>parseTime\<close> splits at the colons and converts every piece with the built-in
  \<^verbatim>\<open>Number\<close>, which is a parameter here: \<open>toNumber\<close> is any function from strings to
  numbers. The first two pieces are the hours and the minutes; a missing piece
  (\<^verbatim>\<open>undefined\<close>) counts as 0, a piece that is not a numeric literal stays \<open>NaN\<close>.
\<close>

definition parseTime :: "(string \<Rightarrow> number) \<Rightarrow> string \<Rightarrow> Time" where
  "parseTime toNumber timeString =
     (let parts = map toNumber (split_on CHR '':'' timeString) in
      \<lparr>hours = (case parts of [] \<Rightarrow> Num 0 | h # _ \<Rightarrow> h),
       minutes = (case parts of _ # m # _ \<Rightarrow> m | _ \<Rightarrow> Num 0)\<rparr>)"

section \<open>Constraint validation (utils/constraints.ts)\<close>

definition isBlackedOut :: "date \<Rightarrow> date list option \<Rightarrow> bool" where
  "isBlackedOut d blackout_dates =
     (case blackout_dates of
        None \<Rightarrow> False
      | Some bs \<Rightarrow> list_ex (\<lambda>blackoutDate. isSameDay d blackoutDate) bs)"


text \<open>
  The loop of \<open>validateRange\<close> over the days of the range:
  \<^verbatim>\<open>while (currentDate <= endDate) { if (isBlackedOut(currentDate, ...)) return ...;
  currentDate.setUTCDate(currentDate.getUTCDate() + 1); }\<close>.
  It answers whether the loop returns the error.
\<close>

function range_contains_blackout :: "date \<Rightarrow> date \<Rightarrow> date list \<Rightarrow> bool" where
  "range_contains_blackout currentDate endDate bs =
     (if date_le currentDate endDate then
        (if isBlackedOut currentDate (Some bs) then True
         else range_contains_blackout
                (setUTCDate currentDate (num_add (getUTCDate currentDate) (Num 1)))
                endDate bs)
      else False)"
  by pat_completeness auto
termination
proof (relation "measure (\<lambda>(c, e, bs).
          (case c of InvalidDate \<Rightarrow> 0
           | Date a \<Rightarrow> (case e of InvalidDate \<Rightarrow> 0 | Date b \<Rightarrow> nat (b - a + 1))))")
  show "wf (measure (\<lambda>(c, e, bs).
          (case c of InvalidDate \<Rightarrow> 0
           | Date a \<Rightarrow> (case e of InvalidDate \<Rightarrow> 0 | Date b \<Rightarrow> nat (b - a + 1)))))"
    by simp
next
  fix currentDate endDate :: date and bs :: "date list"
  assume le: "date_le currentDate endDate"
  then obtain a b where c: "currentDate = Date a" and e: "endDate = Date b" and ab: "a \<le> b"
    by (cases currentDate; cases endDate) (auto simp: date_le_def num_le_def)
  have arg: "num_add (getUTCDate (Date a)) (Num 1) = Num (of_int (DateFromTime a + 1))"
    by simp
  have trunc: "\<And>k :: int. - \<lfloor>- (of_int k :: rat)\<rfloor> = k"
    by (simp only: of_int_minus [symmetric] floor_of_int)
  have set_date: "\<And>k. setUTCDate (Date a) (Num (of_int k)) =
          TimeClip (MakeDate (MakeDay (YearFromTime a) (MonthFromTime a) k) (TimeWithinDay a))"
    using trunc by simp
  have fields: "MakeDay (YearFromTime a) (MonthFromTime a) (DateFromTime a + 1) = Day a + 1"
    unfolding MakeDay_def DateFromTime_def MonthFromTime_def DaysBeforeMonth_def
      DayWithinYear_def InLeapYear_def Let_def
    by simp
  have day: "(Day a + 1) * msPerDay + TimeWithinDay a = a + msPerDay"
    by (simp add: Day_def TimeWithinDay_def algebra_simps)
  have next_day:
    "setUTCDate (Date a) (num_add (getUTCDate (Date a)) (Num 1)) = TimeClip (a + msPerDay)"
    unfolding arg set_date fields MakeDate_def day ..
  show "((setUTCDate currentDate (num_add (getUTCDate currentDate) (Num 1)), endDate, bs),
         (currentDate, endDate, bs))
        \<in> measure (\<lambda>(c, e, bs).
          (case c of InvalidDate \<Rightarrow> 0
           | Date a \<Rightarrow> (case e of InvalidDate \<Rightarrow> 0 | Date b \<Rightarrow> nat (b - a + 1))))"
    unfolding c e next_day using ab
    by (simp add: TimeClip_def msPerDay_def)
qed

text \<open>The loop's equation unfolds without end; it is applied by hand.\<close>

declare range_contains_blackout.simps [simp del]

definition validateRange ::
  "(string \<Rightarrow> number) \<Rightarrow> DateTimeRange \<Rightarrow> ConstraintConfig \<Rightarrow> ValidationError option" where
  "validateRange toNumber rng constraints =
     (case start rng of
        None \<Rightarrow> None
      | Some s \<Rightarrow>
     (case end' rng of
        None \<Rightarrow> None
      | Some e \<Rightarrow>
        if (case minDate constraints of None \<Rightarrow> False | Some m \<Rightarrow> date_lt s m) then
          Some \<lparr>type = min_date,
                message = Start_date_must_be_after (the (minDate constraints))\<rparr>
        else if (case maxDate constraints of None \<Rightarrow> False | Some m \<Rightarrow> date_gt e m) then
          Some \<lparr>type = max_date,
                message = End_date_must_be_before (the (maxDate constraints))\<rparr>
        else
       (case (case blackoutDates constraints of
                None \<Rightarrow> None
              | Some bs \<Rightarrow>
                  if isBlackedOut s (Some bs) then
                    Some \<lparr>type = blackout, message = Start_date_is_not_available\<rparr>
                  else if isBlackedOut e (Some bs) then
                    Some \<lparr>type = blackout, message = End_date_is_not_available\<rparr>
                  else if range_contains_blackout (startOfDay s) (startOfDay e) bs then
                    Some \<lparr>type = blackout,
                          message = Selected_range_contains_unavailable_dates\<rparr>
                  else None) of
          Some err \<Rightarrow> Some err
        | None \<Rightarrow>
        if date_ge s e then
          Some \<lparr>type = invalid_range, message = Start_date_must_be_before_end_date\<rparr>
        else
          let durationMinutes =
                (case (getTime e, getTime s) of
                   (Num te, Num ts) \<Rightarrow> Num ((te - ts) / (1000 * 60))
                 | _ \<Rightarrow> NaN)
          in
          if (case minDuration constraints of
                None \<Rightarrow> False | Some m \<Rightarrow> num_lt durationMinutes m) then
            Some \<lparr>type = min_duration,
                  message = Minimum_duration_is (the (minDuration constraints))\<rparr>
          else if (case maxDuration constraints of
                     None \<Rightarrow> False | Some m \<Rightarrow> num_gt durationMinutes m) then
            Some \<lparr>type = max_duration,
                  message = Maximum_duration_is (the (maxDuration constraints))\<rparr>
          else
         (case (case minTime constraints of
                  None \<Rightarrow> None
                | Some mt \<Rightarrow>
                    if mt = [] then None
                    else
                      let p = parseTime toNumber mt;
                          startHours = getUTCHours s;
                          startMinutes = getUTCMinutes s
                      in
                      if num_lt startHours (hours p) \<or>
                         (num_eq startHours (hours p) \<and> num_lt startMinutes (minutes p))
                      then Some \<lparr>type = min_time, message = Start_time_must_be_after mt\<rparr>
                      else None) of
            Some err \<Rightarrow> Some err
          | None \<Rightarrow>
         (case maxTime constraints of
            None \<Rightarrow> None
          | Some mt \<Rightarrow>
              if mt = [] then None
              else
                let p = parseTime toNumber mt;
                    endHours = getUTCHours e;
                    endMinutes = getUTCMinutes e
                in
                if num_gt endHours (hours p) \<or>
                   (num_eq endHours (hours p) \<and> num_gt endMinutes (minutes p))
                then Some \<lparr>type = max_time, message = End_time_must_be_before mt\<rparr>
                else None)))))"

definition isDateDisabled :: "date \<Rightarrow> ConstraintConfig \<Rightarrow> bool" where
  "isDateDisabled d constraints =
     (if (case minDate constraints of None \<Rightarrow> False | Some m \<Rightarrow> date_lt d m) then True
      else if (case maxDate constraints of None \<Rightarrow> False | Some m \<Rightarrow> date_gt d m) then True
      else if isBlackedOut d (blackoutDates constraints) then True
      else False)"


section \<open>The rules of the validator, one by one\<close>

text \<open>
  The specification describes \<open>validateRange\<close> as a list of rules evaluated in a fixed
  order, the first violated rule giving the result. Each rule is written here on its
  own, as a function of the two endpoints and the constraints; \<open>first_error\<close> takes the
  first error of a list of results.
\<close>

fun first_error :: "'a option list \<Rightarrow> 'a option" where
  "first_error [] = None"
| "first_error (x # xs) = (case x of Some e \<Rightarrow> Some e | None \<Rightarrow> first_error xs)"

definition rule_minDate :: "date \<Rightarrow> date \<Rightarrow> ConstraintConfig \<Rightarrow> ValidationError option" where
  "rule_minDate s e c =
     (case minDate c of
        Some m \<Rightarrow> if date_lt s m
                  then Some \<lparr>type = min_date, message = Start_date_must_be_after m\<rparr> else None
      | None \<Rightarrow> None)"

definition rule_maxDate :: "date \<Rightarrow> date \<Rightarrow> ConstraintConfig \<Rightarrow> ValidationError option" where
  "rule_maxDate s e c =
     (case maxDate c of
        Some m \<Rightarrow> if date_gt e m
                  then Some \<lparr>type = max_date, message = End_date_must_be_before m\<rparr> else None
      | None \<Rightarrow> None)"

definition rule_blackout :: "date \<Rightarrow> date \<Rightarrow> ConstraintConfig \<Rightarrow> ValidationError option" where
  "rule_blackout s e c =
     (case blackoutDates c of
        Some bs \<Rightarrow>
          if isBlackedOut s (Some bs) then
            Some \<lparr>type = blackout, message = Start_date_is_not_available\<rparr>
          else if isBlackedOut e (Some bs) then
            Some \<lparr>type = blackout, message = End_date_is_not_available\<rparr>
          else if range_contains_blackout (startOfDay s) (startOfDay e) bs then
            Some \<lparr>type = blackout, message = Selected_range_contains_unavailable_dates\<rparr>
          else None
      | None \<Rightarrow> None)"

definition rule_invalid_range ::
  "date \<Rightarrow> date \<Rightarrow> ConstraintConfig \<Rightarrow> ValidationError option" where
  "rule_invalid_range s e c =
     (if date_ge s e
      then Some \<lparr>type = invalid_range, message = Start_date_must_be_before_end_date\<rparr>
      else None)"

text \<open>The duration of a range: end minus start, in minutes.\<close>

definition duration_minutes :: "date \<Rightarrow> date \<Rightarrow> number" where
  "duration_minutes s e =
     (case (s, e) of
        (Date ts, Date te) \<Rightarrow> Num (of_int (te - ts) / 60000)
      | _ \<Rightarrow> NaN)"

definition rule_minDuration ::
  "date \<Rightarrow> date \<Rightarrow> ConstraintConfig \<Rightarrow> ValidationError option" where
  "rule_minDuration s e c =
     (case minDuration c of
        Some m \<Rightarrow> if num_lt (duration_minutes s e) m
                  then Some \<lparr>type = min_duration, message = Minimum_duration_is m\<rparr> else None
      | None \<Rightarrow> None)"

definition rule_maxDuration ::
  "date \<Rightarrow> date \<Rightarrow> ConstraintConfig \<Rightarrow> ValidationError option" where
  "rule_maxDuration s e c =
     (case maxDuration c of
        Some m \<Rightarrow> if num_gt (duration_minutes s e) m
                  then Some \<lparr>type = max_duration, message = Maximum_duration_is m\<rparr> else None
      | None \<Rightarrow> None)"

text \<open>Times of day as pairs (hours, minutes), compared hours first.\<close>

definition earlier_than :: "number \<times> number \<Rightarrow> number \<times> number \<Rightarrow> bool" where
  "earlier_than a b =
     (num_lt (fst a) (fst b) \<or> (num_eq (fst a) (fst b) \<and> num_lt (snd a) (snd b)))"

definition later_than :: "number \<times> number \<Rightarrow> number \<times> number \<Rightarrow> bool" where
  "later_than a b =
     (num_gt (fst a) (fst b) \<or> (num_eq (fst a) (fst b) \<and> num_gt (snd a) (snd b)))"

definition rule_minTime ::
  "(string \<Rightarrow> number) \<Rightarrow> date \<Rightarrow> date \<Rightarrow> ConstraintConfig \<Rightarrow> ValidationError option" where
  "rule_minTime toNumber s e c =
     (case minTime c of
        Some mt \<Rightarrow>
          if mt \<noteq> [] \<and>
             earlier_than (getUTCHours s, getUTCMinutes s)
               (hours (parseTime toNumber mt), minutes (parseTime toNumber mt))
          then Some \<lparr>type = min_time, message = Start_time_must_be_after mt\<rparr> else None
      | None \<Rightarrow> None)"

definition rule_maxTime ::
  "(string \<Rightarrow> number) \<Rightarrow> date \<Rightarrow> date \<Rightarrow> ConstraintConfig \<Rightarrow> ValidationError option" where
  "rule_maxTime toNumber s e c =
     (case maxTime c of
        Some mt \<Rightarrow>
          if mt \<noteq> [] \<and>
             later_than (getUTCHours e, getUTCMinutes e)
               (hours (parseTime toNumber mt), minutes (parseTime toNumber mt))
          then Some \<lparr>type = max_time, message = End_time_must_be_before mt\<rparr> else None
      | None \<Rightarrow> None)"

definition rules_in_order ::
  "(string \<Rightarrow> number) \<Rightarrow>
   (date \<Rightarrow> date \<Rightarrow> ConstraintConfig \<Rightarrow> ValidationError option) list" where
  "rules_in_order toNumber =
     [rule_minDate, rule_maxDate, rule_blackout, rule_invalid_range,
      rule_minDuration, rule_maxDuration, rule_minTime toNumber, rule_maxTime toNumber]"

section \<open>A conversion of strings to numbers for concrete inputs\<close>

text \<open>
  The theorems about \<open>validateRange\<close> hold for every conversion function. Where a
  concrete one is needed, \<open>Number_of_digits\<close> is used: it gives the value of a string of
  decimal digits, 0 for the empty string and \<open>NaN\<close> for a string with any other
  character. The built-in \<^verbatim>\<open>Number\<close> agrees with it on digit strings and on strings
  of letters such as \<^verbatim>\<open>"abc"\<close>; it is used on no other input below.
\<close>

fun digits_value :: "nat \<Rightarrow> string \<Rightarrow> nat option" where
  "digits_value acc [] = Some acc"
| "digits_value acc (c # cs) =
     (let v = (of_char c :: nat) in
      if 48 \<le> v \<and> v \<le> 57 then digits_value (10 * acc + (v - 48)) cs else None)"

definition Number_of_digits :: "string \<Rightarrow> number" where
  "Number_of_digits s =
     (case digits_value 0 s of None \<Rightarrow> NaN | Some n \<Rightarrow> Num (of_nat n))"


section \<open>Timezone utilities (utils/timezone.ts)\<close>

text \<open>
  The host's \<^verbatim>\<open>Intl.DateTimeFormat\<close> is the oracle of the resolver. A formatter for a
  zone maps a time value to the numeric values of the year, month (1 to 12), day, hour
  and minute parts that \<^verbatim>\<open>formatToParts\<close> prints and \<^verbatim>\<open>parseInt\<close> reads back.
  Constructing a formatter for a zone the host does not know throws a \<^verbatim>\<open>RangeError\<close>;
  so does formatting an invalid date. The host is a parameter of the model: a partial
  map from zone names to formatters.
\<close>

record parts =
  year_part :: int
  month_part :: int
  day_part :: int
  hour_part :: int
  minute_part :: int

type_synonym formatter = "int \<Rightarrow> parts"

type_synonym intl = "string \<Rightarrow> formatter option"

datatype js_error = RangeError

text \<open>
  The civil fields read from a formatter at an instant: year, 0-based month, day, hour,
  minute. This is the field extraction that \<open>convertToTimezone\<close> and
  \<open>createDateInTimezone\<close> share, and it is what converts an instant to a civil time.
  (\<open>convertToTimezone\<close> goes on to read the fields back as a time of the host's own
  zone and to shift the result by an offset; that part depends on the zone of the host
  and produces a date, not civil fields, and is not modelled.)
\<close>

definition tz_fields :: "formatter \<Rightarrow> int \<Rightarrow> int \<times> int \<times> int \<times> int \<times> int" where
  "tz_fields fmt t =
     (let formatted = fmt t in
      (year_part formatted, month_part formatted - 1, day_part formatted,
       hour_part formatted, minute_part formatted))"

text \<open>
  The search loop of \<open>createDateInTimezone\<close>. The first argument counts the iterations
  that remain (20 at the start); \<open>low\<close>, \<open>high\<close> and \<open>bestDate\<close> are the loop's
  variables. The loop ends at an exact match (\<^verbatim>\<open>break\<close>) or when the iterations are
  used up, and the function returns \<open>bestDate\<close>.
\<close>

fun search :: "nat \<Rightarrow> formatter \<Rightarrow> int \<Rightarrow> int \<Rightarrow> int \<Rightarrow> int \<Rightarrow> int \<Rightarrow>
    int \<Rightarrow> int \<Rightarrow> date \<Rightarrow> js_error + date" where
  "search 0 fmt year month day hour minute low high bestDate = Inr bestDate"
| "search (Suc n) fmt year month day hour minute low high bestDate =
     (let mid = (low + high) div 2;
          testDate = TimeClip mid
      in
      case testDate of
        InvalidDate \<Rightarrow> Inl RangeError
      | Date tv \<Rightarrow>
          let formatted = fmt tv;
              tzYear = year_part formatted;
              tzMonth = month_part formatted - 1;
              tzDay = day_part formatted;
              tzHour = hour_part formatted;
              tzMinute = minute_part formatted
          in
          if tzYear = year \<and> tzMonth = month \<and> tzDay = day \<and> tzHour = hour \<and>
             tzMinute = minute
          then Inr testDate
          else
            let comparison =
                  (if tzYear \<noteq> year then (if tzYear < year then - 1 else 1)
                   else if tzMonth \<noteq> month then (if tzMonth < month then - 1 else 1)
                   else if tzDay \<noteq> day then (if tzDay < day then - 1 else 1)
                   else if tzHour \<noteq> hour then (if tzHour < hour then - 1 else 1)
                   else if tzMinute \<noteq> minute then (if tzMinute < minute then - 1 else 1)
                   else (0 :: int))
            in
            if comparison < 0
            then search n fmt year month day hour minute (mid + 1) high bestDate
            else search n fmt year month day hour minute low (mid - 1) bestDate)"

text \<open>
  The arguments are integral numbers. An invalid rough date makes \<open>low\<close>, \<open>high\<close>
  and the first midpoint \<open>NaN\<close>, and formatting the invalid test date throws.
\<close>

definition createDateInTimezone ::
  "intl \<Rightarrow> int \<Rightarrow> int \<Rightarrow> int \<Rightarrow> int \<Rightarrow> int \<Rightarrow> string \<Rightarrow> js_error + date" where
  "createDateInTimezone host year month day hour minute timezone =
     (let roughDate = Date_UTC year month day hour minute 0 in
      case host timezone of
        None \<Rightarrow> Inl RangeError
      | Some formatter \<Rightarrow>
          (case roughDate of
             InvalidDate \<Rightarrow> Inl RangeError
           | Date rough \<Rightarrow>
               search 20 formatter year month day hour minute
                 (rough - 24 * 60 * 60 * 1000) (rough + 24 * 60 * 60 * 1000) roughDate))"

text \<open>
  The comparison of the search, as a function of the formatted fields and the target
  fields: negative when the formatted civil time is before the target.
\<close>

fun comparison :: "int \<times> int \<times> int \<times> int \<times> int \<Rightarrow> int \<times> int \<times> int \<times> int \<times> int \<Rightarrow> int" where
  "comparison (tzYear, tzMonth, tzDay, tzHour, tzMinute) (year, month, day, hour, minute) =
     (if tzYear \<noteq> year then (if tzYear < year then - 1 else 1)
      else if tzMonth \<noteq> month then (if tzMonth < month then - 1 else 1)
      else if tzDay \<noteq> day then (if tzDay < day then - 1 else 1)
      else if tzHour \<noteq> hour then (if tzHour < hour then - 1 else 1)
      else if tzMinute \<noteq> minute then (if tzMinute < minute then - 1 else 1)
      else 0)"

text \<open>The instants that the search formats, in the order in which it tests them.\<close>

fun tested :: "nat \<Rightarrow> formatter \<Rightarrow> int \<times> int \<times> int \<times> int \<times> int \<Rightarrow> int \<Rightarrow> int \<Rightarrow>
    int list" where
  "tested 0 fmt target low high = []"
| "tested (Suc n) fmt target low high =
     (let mid = (low + high) div 2 in
      case TimeClip mid of
        InvalidDate \<Rightarrow> []
      | Date tv \<Rightarrow>
          if tz_fields fmt tv = target then [tv]
          else if comparison (tz_fields fmt tv) target < 0
          then tv # tested n fmt target (mid + 1) high
          else tv # tested n fmt target low (mid - 1))"

subsection \<open>Formatters for concrete zones\<close>

text \<open>
  The formatter of a zone with a fixed offset from UTC (in milliseconds) prints the UTC
  fields of the shifted instant. New York in 2024 is at UTC-5 until 2024-03-10T07:00Z,
  at UTC-4 until 2024-11-03T06:00Z and at UTC-5 again after.
\<close>

definition utc_format :: formatter where
  "utc_format t =
     \<lparr>year_part = YearFromTime t, month_part = MonthFromTime t + 1,
      day_part = DateFromTime t, hour_part = HourFromTime t, minute_part = MinFromTime t\<rparr>"

definition fixed_offset_format :: "int \<Rightarrow> formatter" where
  "fixed_offset_format offset t = utc_format (t + offset)"

definition new_york_2024_format :: formatter where
  "new_york_2024_format t =
     (if 1710054000000 \<le> t \<and> t < 1730613600000
      then utc_format (t - 4 * msPerHour)
      else utc_format (t - 5 * msPerHour))"

definition two_zone_host :: intl where
  "two_zone_host timezone =
     (if timezone = ''UTC'' then Some utc_format
      else if timezone = ''America/New_York'' then Some new_york_2024_format
      else None)"


section \<open>Notions used to state the claims about the resolver\<close>

text \<open>
  Well-formed civil fields: a 0-based month from 0 to 11, a day that exists in that
  month of that year, an hour from 0 to 23 and a minute from 0 to 59.
\<close>

definition days_in_month :: "int \<Rightarrow> int \<Rightarrow> int" where
  "days_in_month year month =
     (if month = 1 then (if DaysInYear year = 366 then 29 else 28)
      else if month = 3 \<or> month = 5 \<or> month = 8 \<or> month = 10 then 30
      else 31)"

fun well_formed_civil :: "int \<times> int \<times> int \<times> int \<times> int \<Rightarrow> bool" where
  "well_formed_civil (year, month, day, hour, minute) =
     (0 \<le> month \<and> month \<le> 11 \<and> 1 \<le> day \<and> day \<le> days_in_month year month \<and>
      0 \<le> hour \<and> hour \<le> 23 \<and> 0 \<le> minute \<and> minute \<le> 59)"

text \<open>
  The civil fields read as if they were UTC (the rough date of the resolver, without the
  remapping of the years 0 to 99), and the distance in wall-clock milliseconds between
  the civil time a formatter shows at an instant and a target civil time.
\<close>

fun civil_ms :: "int \<times> int \<times> int \<times> int \<times> int \<Rightarrow> int" where
  "civil_ms (year, month, day, hour, minute) =
     MakeDate (MakeDay year month day) (MakeTime hour minute 0 0)"

definition civil_distance :: "formatter \<Rightarrow> int \<times> int \<times> int \<times> int \<times> int \<Rightarrow> int \<Rightarrow> int" where
  "civil_distance fmt target t = \<bar>civil_ms (tz_fields fmt t) - civil_ms target\<bar>"

text \<open>
  An occurrence of the target in a window: a run of at least 165 consecutive instants
  that the formatter shows as the target, such that every instant of the window before
  the run shows the target or an earlier civil time, and every instant after the run
  shows the target or a later one. (After 20 halvings the window of 48 hours is still
  about 165 ms wide; a civil minute lasts 60000 ms.)
\<close>

definition occurrence ::
  "formatter \<Rightarrow> int \<times> int \<times> int \<times> int \<times> int \<Rightarrow> int \<Rightarrow> int \<Rightarrow> bool" where
  "occurrence fmt target low high =
     (\<exists>A B. low \<le> A \<and> A + 164 \<le> B \<and> B \<le> high \<and>
        (\<forall>t. A \<le> t \<and> t \<le> B \<longrightarrow> tz_fields fmt t = target) \<and>
        (\<forall>t. low \<le> t \<and> t < A \<longrightarrow>
           tz_fields fmt t = target \<or> comparison (tz_fields fmt t) target < 0) \<and>
        (\<forall>t. B < t \<and> t \<le> high \<longrightarrow>
           tz_fields fmt t = target \<or> 0 \<le> comparison (tz_fields fmt t) target))"

text \<open>
  The window holds an occurrence of the target, or splits at an instant into two parts
  that each hold one (a civil time shown twice, on either side of a fall-back).
\<close>

definition resolvable ::
  "formatter \<Rightarrow> int \<times> int \<times> int \<times> int \<times> int \<Rightarrow> int \<Rightarrow> int \<Rightarrow> bool" where
  "resolvable fmt target low high =
     (occurrence fmt target low high \<or>
      (\<exists>F. occurrence fmt target low (F - 1) \<and> occurrence fmt target F high))"

text \<open>A formatter that never goes back on an interval.\<close>

definition nondecreasing :: "formatter \<Rightarrow> int \<Rightarrow> int \<Rightarrow> bool" where
  "nondecreasing fmt low high =
     (\<forall>t1 t2. low \<le> t1 \<and> t1 \<le> t2 \<and> t2 \<le> high \<longrightarrow>
        comparison (tz_fields fmt t1) (tz_fields fmt t2) \<le> 0)"

section \<open>Facts about the model\<close>

lemma date_lt_Date [simp]: "date_lt (Date a) (Date b) = (a < b)"
  by (simp add: date_lt_def)

lemma date_gt_Date [simp]: "date_gt (Date a) (Date b) = (b < a)"
  by (simp add: date_gt_def num_gt_def)

lemma date_ge_Date [simp]: "date_ge (Date a) (Date b) = (b \<le> a)"
  by (auto simp add: date_ge_def num_ge_def)

lemma date_le_Date [simp]: "date_le (Date a) (Date b) = (a \<le> b)"
  by (auto simp add: date_le_def num_le_def)

lemma date_cmp_Invalid [simp]:
  "\<not> date_lt InvalidDate d" "\<not> date_lt d InvalidDate"
  "\<not> date_gt InvalidDate d" "\<not> date_gt d InvalidDate"
  "\<not> date_ge InvalidDate d" "\<not> date_ge d InvalidDate"
  "\<not> date_le InvalidDate d" "\<not> date_le d InvalidDate"
  by (cases d; simp add: date_lt_def date_gt_def date_ge_def date_le_def num_gt_def
      num_ge_def num_le_def)+

lemma duration_eq:
  "(case (getTime e, getTime s) of (Num te, Num ts) \<Rightarrow> Num ((te - ts) / (1000 * 60)) | _ \<Rightarrow> NaN)
   = duration_minutes s e"
  by (cases s; cases e) (simp_all add: duration_minutes_def)

lemma rule_minDate_if:
  "rule_minDate s e c =
    (if (case minDate c of None \<Rightarrow> False | Some m \<Rightarrow> date_lt s m)
     then Some \<lparr>type = min_date, message = Start_date_must_be_after (the (minDate c))\<rparr> else None)"
  by (cases "minDate c") (simp_all add: rule_minDate_def)

lemma rule_maxDate_if:
  "rule_maxDate s e c =
    (if (case maxDate c of None \<Rightarrow> False | Some m \<Rightarrow> date_gt e m)
     then Some \<lparr>type = max_date, message = End_date_must_be_before (the (maxDate c))\<rparr> else None)"
  by (cases "maxDate c") (simp_all add: rule_maxDate_def)

lemma rule_minDuration_if:
  "rule_minDuration s e c =
    (if (case minDuration c of None \<Rightarrow> False | Some m \<Rightarrow> num_lt (duration_minutes s e) m)
     then Some \<lparr>type = min_duration, message = Minimum_duration_is (the (minDuration c))\<rparr> else None)"
  by (cases "minDuration c") (simp_all add: rule_minDuration_def)

lemma rule_maxDuration_if:
  "rule_maxDuration s e c =
    (if (case maxDuration c of None \<Rightarrow> False | Some m \<Rightarrow> num_gt (duration_minutes s e) m)
     then Some \<lparr>type = max_duration, message = Maximum_duration_is (the (maxDuration c))\<rparr> else None)"
  by (cases "maxDuration c") (simp_all add: rule_maxDuration_def)

lemma rule_minTime_block:
  "rule_minTime toNumber s e c =
     (case minTime c of
        None \<Rightarrow> None
      | Some mt \<Rightarrow>
          if mt = [] then None
          else
            if num_lt (getUTCHours s) (hours (parseTime toNumber mt)) \<or>
               (num_eq (getUTCHours s) (hours (parseTime toNumber mt)) \<and>
                num_lt (getUTCMinutes s) (minutes (parseTime toNumber mt)))
            then Some \<lparr>type = min_time, message = Start_time_must_be_after mt\<rparr>
            else None)"
  by (cases "minTime c") (simp_all add: rule_minTime_def earlier_than_def)

lemma rule_maxTime_block:
  "rule_maxTime toNumber s e c =
     (case maxTime c of
        None \<Rightarrow> None
      | Some mt \<Rightarrow>
          if mt = [] then None
          else
            if num_gt (getUTCHours e) (hours (parseTime toNumber mt)) \<or>
               (num_eq (getUTCHours e) (hours (parseTime toNumber mt)) \<and>
                num_gt (getUTCMinutes e) (minutes (parseTime toNumber mt)))
            then Some \<lparr>type = max_time, message = End_time_must_be_before mt\<rparr>
            else None)"
  by (cases "maxTime c") (simp_all add: rule_maxTime_def later_than_def)

lemma rule_blackout_block:
  "rule_blackout s e c =
     (case blackoutDates c of
                None \<Rightarrow> None
              | Some bs \<Rightarrow>
                  if isBlackedOut s (Some bs) then
                    Some \<lparr>type = blackout, message = Start_date_is_not_available\<rparr>
                  else if isBlackedOut e (Some bs) then
                    Some \<lparr>type = blackout, message = End_date_is_not_available\<rparr>
                  else if range_contains_blackout (startOfDay s) (startOfDay e) bs then
                    Some \<lparr>type = blackout,
                          message = Selected_range_contains_unavailable_dates\<rparr>
                  else None)"
  by (cases "blackoutDates c") (simp_all add: rule_blackout_def)

text \<open>The validator on a complete range is the chain of the eight rules.\<close>

lemma validateRange_chain:
  assumes "start r = Some s" and "end' r = Some e"
  shows "validateRange toNumber r c =
     first_error [rule_minDate s e c, rule_maxDate s e c, rule_blackout s e c,
       rule_invalid_range s e c, rule_minDuration s e c, rule_maxDuration s e c,
       rule_minTime toNumber s e c, rule_maxTime toNumber s e c]"
proof -
  have caseif: "\<And>A (x::ValidationError) r.
      (case (if A then Some x else None) of None \<Rightarrow> r | Some err \<Rightarrow> Some err) =
      (if A then Some x else r)"
    by simp
  have last: "\<And>x::ValidationError option.
      (case x of None \<Rightarrow> None | Some err \<Rightarrow> Some err) = x"
    by (simp split: option.splits)
  have lhs: "validateRange toNumber r c =
      (if (case minDate c of None \<Rightarrow> False | Some m \<Rightarrow> date_lt s m) then
          Some \<lparr>type = min_date, message = Start_date_must_be_after (the (minDate c))\<rparr>
        else if (case maxDate c of None \<Rightarrow> False | Some m \<Rightarrow> date_gt e m) then
          Some \<lparr>type = max_date, message = End_date_must_be_before (the (maxDate c))\<rparr>
        else
       (case rule_blackout s e c of
          Some err \<Rightarrow> Some err
        | None \<Rightarrow>
        if date_ge s e then
          Some \<lparr>type = invalid_range, message = Start_date_must_be_before_end_date\<rparr>
        else
          if (case minDuration c of
                None \<Rightarrow> False | Some m \<Rightarrow> num_lt (duration_minutes s e) m) then
            Some \<lparr>type = min_duration,
                  message = Minimum_duration_is (the (minDuration c))\<rparr>
          else if (case maxDuration c of
                     None \<Rightarrow> False | Some m \<Rightarrow> num_gt (duration_minutes s e) m) then
            Some \<lparr>type = max_duration,
                  message = Maximum_duration_is (the (maxDuration c))\<rparr>
          else
         (case rule_minTime toNumber s e c of
            Some err \<Rightarrow> Some err
          | None \<Rightarrow> rule_maxTime toNumber s e c)))"
    unfolding validateRange_def assms option.case duration_eq Let_def
      rule_minTime_block rule_maxTime_block rule_blackout_block ..
  show ?thesis
    unfolding lhs first_error.simps
      rule_minDate_if rule_maxDate_if rule_minDuration_if rule_maxDuration_if
      rule_invalid_range_def caseif last ..
qed

lemma rule_types:
  "rule_minDate s e c = Some err \<Longrightarrow> type err = min_date"
  "rule_maxDate s e c = Some err \<Longrightarrow> type err = max_date"
  "rule_blackout s e c = Some err \<Longrightarrow> type err = blackout"
  "rule_invalid_range s e c = Some err \<Longrightarrow> type err = invalid_range"
  "rule_minDuration s e c = Some err \<Longrightarrow> type err = min_duration"
  "rule_maxDuration s e c = Some err \<Longrightarrow> type err = max_duration"
  "rule_minTime toNumber s e c = Some err \<Longrightarrow> type err = min_time"
  "rule_maxTime toNumber s e c = Some err \<Longrightarrow> type err = max_time"
proof -
  show "rule_minDate s e c = Some err \<Longrightarrow> type err = min_date"
    by (cases "minDate c") (auto simp: rule_minDate_def split: if_splits)
  show "rule_maxDate s e c = Some err \<Longrightarrow> type err = max_date"
    by (cases "maxDate c") (auto simp: rule_maxDate_def split: if_splits)
  show "rule_blackout s e c = Some err \<Longrightarrow> type err = blackout"
    by (cases "blackoutDates c") (auto simp: rule_blackout_def split: if_splits)
  show "rule_invalid_range s e c = Some err \<Longrightarrow> type err = invalid_range"
    by (auto simp: rule_invalid_range_def split: if_splits)
  show "rule_minDuration s e c = Some err \<Longrightarrow> type err = min_duration"
    by (cases "minDuration c") (auto simp: rule_minDuration_def split: if_splits)
  show "rule_maxDuration s e c = Some err \<Longrightarrow> type err = max_duration"
    by (cases "maxDuration c") (auto simp: rule_maxDuration_def split: if_splits)
  show "rule_minTime toNumber s e c = Some err \<Longrightarrow> type err = min_time"
    by (cases "minTime c") (auto simp: rule_minTime_def split: if_splits)
  show "rule_maxTime toNumber s e c = Some err \<Longrightarrow> type err = max_time"
    by (cases "maxTime c") (auto simp: rule_maxTime_def split: if_splits)
qed

lemma first_error_cases:
  "first_error xs = Some err \<Longrightarrow> Some err \<in> set xs"
  by (induction xs) (auto split: option.splits)

lemma split_on_not_Nil: "split_on sep s \<noteq> []"
  by (induction s) (auto split: list.splits)

lemma hd_split_on: "hd (split_on sep s) = takeWhile (\<lambda>ch. ch \<noteq> sep) s"
proof (induction s)
  case Nil
  show ?case by simp
next
  case (Cons a s)
  obtain p ps where sp: "split_on sep s = p # ps"
    using split_on_not_Nil [of sep s] by (cases "split_on sep s") auto
  with Cons show ?case by simp
qed

lemma hours_parseTime:
  "hours (parseTime toNumber mt) = toNumber (takeWhile (\<lambda>ch. ch \<noteq> CHR '':'') mt)"
proof -
  obtain p ps where sp: "split_on CHR '':'' mt = p # ps"
    using split_on_not_Nil [of "CHR '':''" mt] by (cases "split_on CHR '':'' mt") auto
  then have "p = takeWhile (\<lambda>ch. ch \<noteq> CHR '':'') mt"
    using hd_split_on [of "CHR '':''" mt] by simp
  then show ?thesis by (simp add: parseTime_def sp)
qed

lemma num_NaN [simp]:
  "\<not> num_eq a NaN" "\<not> num_eq NaN a" "\<not> num_gt a NaN" "\<not> num_gt NaN a"
  by (cases a; simp add: num_eq_def num_gt_def)+

lemma rule_minTime_NaN:
  assumes "minTime c = Some mt" and "toNumber (takeWhile (\<lambda>ch. ch \<noteq> CHR '':'') mt) = NaN"
  shows "rule_minTime toNumber s e c = None"
  using assms by (simp add: rule_minTime_def earlier_than_def hours_parseTime)

lemma rule_maxTime_NaN:
  assumes "maxTime c = Some mt" and "toNumber (takeWhile (\<lambda>ch. ch \<noteq> CHR '':'') mt) = NaN"
  shows "rule_maxTime toNumber s e c = None"
  using assms by (simp add: rule_maxTime_def later_than_def hours_parseTime)

lemma rules_without_minTime:
  "rule_minDate s e (c\<lparr>minTime := x\<rparr>) = rule_minDate s e c"
  "rule_maxDate s e (c\<lparr>minTime := x\<rparr>) = rule_maxDate s e c"
  "rule_blackout s e (c\<lparr>minTime := x\<rparr>) = rule_blackout s e c"
  "rule_invalid_range s e (c\<lparr>minTime := x\<rparr>) = rule_invalid_range s e c"
  "rule_minDuration s e (c\<lparr>minTime := x\<rparr>) = rule_minDuration s e c"
  "rule_maxDuration s e (c\<lparr>minTime := x\<rparr>) = rule_maxDuration s e c"
  "rule_maxTime toNumber s e (c\<lparr>minTime := x\<rparr>) = rule_maxTime toNumber s e c"
  "rule_minTime toNumber s e (c\<lparr>minTime := None\<rparr>) = None"
  by (simp_all add: rule_minDate_def rule_maxDate_def rule_blackout_def rule_invalid_range_def
      rule_minDuration_def rule_maxDuration_def rule_minTime_def rule_maxTime_def)

lemma rules_without_maxTime:
  "rule_minDate s e (c\<lparr>maxTime := x\<rparr>) = rule_minDate s e c"
  "rule_maxDate s e (c\<lparr>maxTime := x\<rparr>) = rule_maxDate s e c"
  "rule_blackout s e (c\<lparr>maxTime := x\<rparr>) = rule_blackout s e c"
  "rule_invalid_range s e (c\<lparr>maxTime := x\<rparr>) = rule_invalid_range s e c"
  "rule_minDuration s e (c\<lparr>maxTime := x\<rparr>) = rule_minDuration s e c"
  "rule_maxDuration s e (c\<lparr>maxTime := x\<rparr>) = rule_maxDuration s e c"
  "rule_minTime toNumber s e (c\<lparr>maxTime := x\<rparr>) = rule_minTime toNumber s e c"
  "rule_maxTime toNumber s e (c\<lparr>maxTime := None\<rparr>) = None"
  by (simp_all add: rule_minDate_def rule_maxDate_def rule_blackout_def rule_invalid_range_def
      rule_minDuration_def rule_maxDuration_def rule_minTime_def rule_maxTime_def)

lemma partial_range_None:
  "start r = None \<or> end' r = None \<Longrightarrow> validateRange toNumber r c = None"
proof (cases "start r")
  case None
  then show ?thesis by (simp add: validateRange_def)
next
  case (Some s)
  assume "start r = None \<or> end' r = None"
  with Some have "end' r = None" by simp
  with Some show ?thesis by (simp add: validateRange_def)
qed

lemma validateRange_minTime_NaN:
  assumes "minTime c = Some mt" and "toNumber (takeWhile (\<lambda>ch. ch \<noteq> CHR '':'') mt) = NaN"
  shows "validateRange toNumber r c = validateRange toNumber r (c\<lparr>minTime := None\<rparr>)"
proof (cases "start r = None \<or> end' r = None")
  case True
  then show ?thesis by (simp add: partial_range_None)
next
  case False
  then obtain s e where se: "start r = Some s" "end' r = Some e" by auto
  show ?thesis
    unfolding validateRange_chain [OF se] rules_without_minTime
      rule_minTime_NaN [where toNumber = toNumber, OF assms] ..
qed

lemma validateRange_maxTime_NaN:
  assumes "maxTime c = Some mt" and "toNumber (takeWhile (\<lambda>ch. ch \<noteq> CHR '':'') mt) = NaN"
  shows "validateRange toNumber r c = validateRange toNumber r (c\<lparr>maxTime := None\<rparr>)"
proof (cases "start r = None \<or> end' r = None")
  case True
  then show ?thesis by (simp add: partial_range_None)
next
  case False
  then obtain s e where se: "start r = Some s" "end' r = Some e" by auto
  show ?thesis
    unfolding validateRange_chain [OF se] rules_without_maxTime
      rule_maxTime_NaN [where toNumber = toNumber, OF assms] ..
qed

lemma validateRange_error_from_rule:
  assumes "validateRange toNumber r c = Some err"
  shows "\<exists>s e. start r = Some s \<and> end' r = Some e \<and>
     Some err \<in> {rule_minDate s e c, rule_maxDate s e c, rule_blackout s e c,
       rule_invalid_range s e c, rule_minDuration s e c, rule_maxDuration s e c,
       rule_minTime toNumber s e c, rule_maxTime toNumber s e c}"
proof -
  have "\<not> (start r = None \<or> end' r = None)"
  proof
    assume "start r = None \<or> end' r = None"
    then have "validateRange toNumber r c = None" by (rule partial_range_None)
    with assms show False by simp
  qed
  then obtain s e where se: "start r = Some s" "end' r = Some e" by auto
  have "Some err \<in> set [rule_minDate s e c, rule_maxDate s e c, rule_blackout s e c,
       rule_invalid_range s e c, rule_minDuration s e c, rule_maxDuration s e c,
       rule_minTime toNumber s e c, rule_maxTime toNumber s e c]"
    using assms unfolding validateRange_chain [OF se] by (rule first_error_cases)
  then show ?thesis using se by simp
qed

lemma isSameDay_Date:
  "isSameDay d b \<longleftrightarrow> (\<exists>t u. d = Date t \<and> b = Date u \<and> YearFromTime u = YearFromTime t \<and>
      MonthFromTime u = MonthFromTime t \<and> DateFromTime u = DateFromTime t)"
  by (cases d; cases b) (auto simp: isSameDay_def num_eq_def)

lemmas Date_UTC_eval =
  Date_UTC_def MakeDate_def MakeDay_def MakeTime_def DayFromYear_def DaysInYear_def
  DaysBeforeMonth_def TimeClip_def msPerDay_def msPerHour_def msPerMinute_def msPerSecond_def

lemma march_2024:
  "Date_UTC 2024 2 15 0 0 0 = Date 1710460800000"
  "Date_UTC 2024 2 15 10 0 0 = Date 1710496800000"
  "Date_UTC 2024 2 15 10 30 0 = Date 1710498600000"
  "Date_UTC 2024 2 15 14 0 0 = Date 1710511200000"
  "Date_UTC 2024 2 15 20 0 0 = Date 1710532800000"
  "Date_UTC 2024 2 20 0 0 0 = Date 1710892800000"
  by (simp_all add: Date_UTC_eval)

lemma no_constraints_rules:
  "rule_minDate s e no_constraints = None"
  "rule_maxDate s e no_constraints = None"
  "rule_blackout s e no_constraints = None"
  "rule_minDuration s e no_constraints = None"
  "rule_maxDuration s e no_constraints = None"
  "rule_minTime toNumber s e no_constraints = None"
  "rule_maxTime toNumber s e no_constraints = None"
  by (simp_all add: no_constraints_def rule_minDate_def rule_maxDate_def rule_blackout_def
      rule_minDuration_def rule_maxDuration_def rule_minTime_def rule_maxTime_def)

section \<open>The validator: claims\<close>

text \<open>
  Claim C5. A range whose start or end is absent is never reported: the result is
  \<open>None\<close> for all constraints.
\<close>

theorem validateRange_partial_range:
  "start r = None \<or> end' r = None \<Longrightarrow> validateRange toNumber r c = None"
proof (cases "start r")
  case None
  then show ?thesis by (simp add: validateRange_def)
next
  case (Some s)
  assume "start r = None \<or> end' r = None"
  with Some have "end' r = None" by simp
  with Some show ?thesis by (simp add: validateRange_def)
qed

theorem validateRange_partial_range_witness:
  "(start \<lparr>start = Some (Date_UTC 2024 2 15 10 0 0), end' = None\<rparr> = None \<or>
    end' \<lparr>start = Some (Date_UTC 2024 2 15 10 0 0), end' = None\<rparr> = None) \<and>
   validateRange Number_of_digits \<lparr>start = Some (Date_UTC 2024 2 15 10 0 0), end' = None\<rparr>
     \<lparr>minDate = Some (Date_UTC 2024 2 20 0 0 0), maxDate = Some (Date_UTC 2024 2 15 0 0 0),
      minTime = Some ''09:00'', maxTime = Some ''17:00'',
      blackoutDates = Some [Date_UTC 2024 2 15 0 0 0],
      minDuration = Some (Num 60), maxDuration = Some (Num 480)\<rparr> = None"
  using validateRange_partial_range
    [of "\<lparr>start = Some (Date_UTC 2024 2 15 10 0 0), end' = None\<rparr>" Number_of_digits]
  by simp

text \<open>
  Claim C9. When the text of \<open>minTime\<close> before its first colon converts to \<open>NaN\<close>,
  \<open>validateRange\<close> gives the result it gives without the \<open>minTime\<close> constraint, and
  never a \<open>min_time\<close> error; likewise for \<open>maxTime\<close> and \<open>max_time\<close>. The function is
  total: there is no input on which it fails.
\<close>

theorem validateRange_unparsable_time_ignored:
  "(\<forall>mt. minTime c = Some mt \<and> toNumber (takeWhile (\<lambda>ch. ch \<noteq> CHR '':'') mt) = NaN \<longrightarrow>
      validateRange toNumber r c = validateRange toNumber r (c\<lparr>minTime := None\<rparr>) \<and>
      (\<forall>err. validateRange toNumber r c = Some err \<longrightarrow> type err \<noteq> min_time)) \<and>
   (\<forall>mt. maxTime c = Some mt \<and> toNumber (takeWhile (\<lambda>ch. ch \<noteq> CHR '':'') mt) = NaN \<longrightarrow>
      validateRange toNumber r c = validateRange toNumber r (c\<lparr>maxTime := None\<rparr>) \<and>
      (\<forall>err. validateRange toNumber r c = Some err \<longrightarrow> type err \<noteq> max_time))"
proof (intro conjI allI impI)
  fix mt
  assume h: "minTime c = Some mt \<and> toNumber (takeWhile (\<lambda>ch. ch \<noteq> CHR '':'') mt) = NaN"
  then show "validateRange toNumber r c = validateRange toNumber r (c\<lparr>minTime := None\<rparr>)"
    using validateRange_minTime_NaN [where toNumber = toNumber and c = c and mt = mt] by blast
  fix err
  assume res: "validateRange toNumber r c = Some err"
  from h have none: "\<And>s e. rule_minTime toNumber s e c = None"
    using rule_minTime_NaN [where toNumber = toNumber and c = c and mt = mt] by blast
  from validateRange_error_from_rule [OF res] obtain s e where
    "Some err \<in> {rule_minDate s e c, rule_maxDate s e c, rule_blackout s e c,
       rule_invalid_range s e c, rule_minDuration s e c, rule_maxDuration s e c,
       rule_minTime toNumber s e c, rule_maxTime toNumber s e c}"
    by blast
  then show "type err \<noteq> min_time"
    using none [of s e] rule_types(1-6) [of s e c err] rule_types(7,8) [of toNumber s e c err]
    by auto
next
  fix mt
  assume h: "maxTime c = Some mt \<and> toNumber (takeWhile (\<lambda>ch. ch \<noteq> CHR '':'') mt) = NaN"
  then show "validateRange toNumber r c = validateRange toNumber r (c\<lparr>maxTime := None\<rparr>)"
    using validateRange_maxTime_NaN [where toNumber = toNumber and c = c and mt = mt] by blast
  fix err
  assume res: "validateRange toNumber r c = Some err"
  from h have none: "\<And>s e. rule_maxTime toNumber s e c = None"
    using rule_maxTime_NaN [where toNumber = toNumber and c = c and mt = mt] by blast
  from validateRange_error_from_rule [OF res] obtain s e where
    "Some err \<in> {rule_minDate s e c, rule_maxDate s e c, rule_blackout s e c,
       rule_invalid_range s e c, rule_minDuration s e c, rule_maxDuration s e c,
       rule_minTime toNumber s e c, rule_maxTime toNumber s e c}"
    by blast
  then show "type err \<noteq> max_time"
    using none [of s e] rule_types(1-6) [of s e c err] rule_types(7,8) [of toNumber s e c err]
    by auto
qed

theorem validateRange_unparsable_time_ignored_witness:
  "Number_of_digits (takeWhile (\<lambda>ch. ch \<noteq> CHR '':'') ''abc:def'') = NaN \<and>
   validateRange Number_of_digits
     \<lparr>start = Some (Date_UTC 2024 2 15 10 0 0), end' = Some (Date_UTC 2024 2 15 14 0 0)\<rparr>
     (no_constraints\<lparr>minTime := Some ''abc:def''\<rparr>) =
   validateRange Number_of_digits
     \<lparr>start = Some (Date_UTC 2024 2 15 10 0 0), end' = Some (Date_UTC 2024 2 15 14 0 0)\<rparr>
     no_constraints \<and>
   Number_of_digits (takeWhile (\<lambda>ch. ch \<noteq> CHR '':'') ''abc'') = NaN \<and>
   validateRange Number_of_digits
     \<lparr>start = Some (Date_UTC 2024 2 15 10 0 0), end' = Some (Date_UTC 2024 2 15 14 0 0)\<rparr>
     (no_constraints\<lparr>maxTime := Some ''abc''\<rparr>) =
   validateRange Number_of_digits
     \<lparr>start = Some (Date_UTC 2024 2 15 10 0 0), end' = Some (Date_UTC 2024 2 15 14 0 0)\<rparr>
     no_constraints"
proof -
  let ?r = "\<lparr>start = Some (Date_UTC 2024 2 15 10 0 0), end' = Some (Date_UTC 2024 2 15 14 0 0)\<rparr>"
  have nan1: "Number_of_digits (takeWhile (\<lambda>ch. ch \<noteq> CHR '':'') ''abc:def'') = NaN"
    by (simp add: Number_of_digits_def)
  have nan2: "Number_of_digits (takeWhile (\<lambda>ch. ch \<noteq> CHR '':'') ''abc'') = NaN"
    by (simp add: Number_of_digits_def)
  have c1: "(no_constraints\<lparr>minTime := Some ''abc:def''\<rparr>)\<lparr>minTime := None\<rparr> = no_constraints"
    and c2: "(no_constraints\<lparr>maxTime := Some ''abc''\<rparr>)\<lparr>maxTime := None\<rparr> = no_constraints"
    by (simp_all add: no_constraints_def)
  have m1: "minTime (no_constraints\<lparr>minTime := Some ''abc:def''\<rparr>) = Some ''abc:def''"
    and m2: "maxTime (no_constraints\<lparr>maxTime := Some ''abc''\<rparr>) = Some ''abc''"
    by simp_all
  from nan1 m1 have r1: "validateRange Number_of_digits ?r
      (no_constraints\<lparr>minTime := Some ''abc:def''\<rparr>) =
      validateRange Number_of_digits ?r no_constraints"
    using validateRange_unparsable_time_ignored
      [of "no_constraints\<lparr>minTime := Some ''abc:def''\<rparr>" Number_of_digits ?r]
    unfolding c1 by blast
  from nan2 m2 have r2: "validateRange Number_of_digits ?r
      (no_constraints\<lparr>maxTime := Some ''abc''\<rparr>) =
      validateRange Number_of_digits ?r no_constraints"
    using validateRange_unparsable_time_ignored
      [of "no_constraints\<lparr>maxTime := Some ''abc''\<rparr>" Number_of_digits ?r]
    unfolding c2 by blast
  from nan1 nan2 r1 r2 show ?thesis by blast
qed

text \<open>
  Claim C6. A complete range with \<open>start >= end\<close> that passes the minDate, maxDate and
  blackout rules gets the \<open>invalid_range\<close> error; whatever the constraints, a range with
  \<open>start >= end\<close> never gets a \<open>min_duration\<close> or \<open>max_duration\<close> error.
\<close>

theorem validateRange_invalid_range:
  assumes "start r = Some s" and "end' r = Some e" and "date_ge s e"
  shows "(rule_minDate s e c = None \<and> rule_maxDate s e c = None \<and> rule_blackout s e c = None \<longrightarrow>
           validateRange toNumber r c =
             Some \<lparr>type = invalid_range, message = Start_date_must_be_before_end_date\<rparr>) \<and>
         (\<forall>err. validateRange toNumber r c = Some err \<longrightarrow>
            type err \<noteq> min_duration \<and> type err \<noteq> max_duration)"
proof (intro conjI impI allI)
  assume "rule_minDate s e c = None \<and> rule_maxDate s e c = None \<and> rule_blackout s e c = None"
  then show "validateRange toNumber r c =
             Some \<lparr>type = invalid_range, message = Start_date_must_be_before_end_date\<rparr>"
    unfolding validateRange_chain [OF assms(1,2)] using assms(3)
    by (simp add: rule_invalid_range_def)
next
  fix err
  assume res: "validateRange toNumber r c = Some err"
  have inv: "rule_invalid_range s e c =
      Some \<lparr>type = invalid_range, message = Start_date_must_be_before_end_date\<rparr>"
    using assms(3) by (simp add: rule_invalid_range_def)
  have "Some err \<in> {rule_minDate s e c, rule_maxDate s e c, rule_blackout s e c,
      rule_invalid_range s e c}"
    using res unfolding validateRange_chain [OF assms(1,2)] inv
    by (cases "rule_minDate s e c"; cases "rule_maxDate s e c"; cases "rule_blackout s e c")
       simp_all
  then have "type err \<in> {min_date, max_date, blackout, invalid_range}"
    using rule_types(1-4) [of s e c err] by auto
  then show "type err \<noteq> min_duration" and "type err \<noteq> max_duration"
    by auto
qed

theorem validateRange_invalid_range_witness:
  "date_ge (Date_UTC 2024 2 15 14 0 0) (Date_UTC 2024 2 15 10 0 0) \<and>
   validateRange Number_of_digits
     \<lparr>start = Some (Date_UTC 2024 2 15 14 0 0), end' = Some (Date_UTC 2024 2 15 10 0 0)\<rparr>
     no_constraints =
   Some \<lparr>type = invalid_range, message = Start_date_must_be_before_end_date\<rparr>"
proof -
  have ge: "date_ge (Date_UTC 2024 2 15 14 0 0) (Date_UTC 2024 2 15 10 0 0)"
    by (simp add: march_2024)
  then show ?thesis
    using validateRange_invalid_range
      [of "\<lparr>start = Some (Date_UTC 2024 2 15 14 0 0), end' = Some (Date_UTC 2024 2 15 10 0 0)\<rparr>"
        "Date_UTC 2024 2 15 14 0 0" "Date_UTC 2024 2 15 10 0 0" no_constraints Number_of_digits]
    by (simp add: no_constraints_rules)
qed



text \<open>
  Claim C8. \<open>isDateDisabled d c\<close> holds exactly when \<open>d\<close> is a valid date that is before
  \<open>minDate\<close>, or after \<open>maxDate\<close>, or has the UTC year, month and day of the month of
  one of the \<open>blackoutDates\<close>. The time-of-day and duration constraints do not matter.
\<close>

theorem isDateDisabled_iff:
  "(isDateDisabled d c \<longleftrightarrow>
     (\<exists>t. d = Date t \<and>
        ((\<exists>m. minDate c = Some (Date m) \<and> t < m) \<or>
         (\<exists>m. maxDate c = Some (Date m) \<and> m < t) \<or>
         (\<exists>bs u. blackoutDates c = Some bs \<and> Date u \<in> set bs \<and>
            YearFromTime u = YearFromTime t \<and> MonthFromTime u = MonthFromTime t \<and>
            DateFromTime u = DateFromTime t)))) \<and>
   isDateDisabled d (c\<lparr>minTime := mt, maxTime := xt, minDuration := md, maxDuration := xd\<rparr>) =
     isDateDisabled d c"
proof
  have lt: "(case minDate c of None \<Rightarrow> False | Some m \<Rightarrow> date_lt d m) \<longleftrightarrow>
      (\<exists>t m. d = Date t \<and> minDate c = Some (Date m) \<and> t < m)"
    by (cases "minDate c"; cases d; cases "the (minDate c)") auto
  have gt: "(case maxDate c of None \<Rightarrow> False | Some m \<Rightarrow> date_gt d m) \<longleftrightarrow>
      (\<exists>t m. d = Date t \<and> maxDate c = Some (Date m) \<and> m < t)"
    by (cases "maxDate c"; cases d; cases "the (maxDate c)") auto
  have bl: "isBlackedOut d (blackoutDates c) \<longleftrightarrow>
      (\<exists>t bs u. d = Date t \<and> blackoutDates c = Some bs \<and> Date u \<in> set bs \<and>
            YearFromTime u = YearFromTime t \<and> MonthFromTime u = MonthFromTime t \<and>
            DateFromTime u = DateFromTime t)"
    by (cases "blackoutDates c") (auto simp: isBlackedOut_def list_ex_iff isSameDay_Date)
  show "isDateDisabled d c \<longleftrightarrow>
     (\<exists>t. d = Date t \<and>
        ((\<exists>m. minDate c = Some (Date m) \<and> t < m) \<or>
         (\<exists>m. maxDate c = Some (Date m) \<and> m < t) \<or>
         (\<exists>bs u. blackoutDates c = Some bs \<and> Date u \<in> set bs \<and>
            YearFromTime u = YearFromTime t \<and> MonthFromTime u = MonthFromTime t \<and>
            DateFromTime u = DateFromTime t)))"
    unfolding isDateDisabled_def lt gt bl by auto
  show "isDateDisabled d (c\<lparr>minTime := mt, maxTime := xt, minDuration := md, maxDuration := xd\<rparr>) =
     isDateDisabled d c"
    by (simp add: isDateDisabled_def)
qed

theorem isDateDisabled_iff_witness:
  "isDateDisabled (Date_UTC 2024 2 15 0 0 0)
     (no_constraints\<lparr>minDate := Some (Date_UTC 2024 2 20 0 0 0)\<rparr>) \<and>
   \<not> isDateDisabled (Date_UTC 2024 2 15 0 0 0) no_constraints"
  using isDateDisabled_iff [of "Date_UTC 2024 2 15 0 0 0"
      "no_constraints\<lparr>minDate := Some (Date_UTC 2024 2 20 0 0 0)\<rparr>"]
    isDateDisabled_iff [of "Date_UTC 2024 2 15 0 0 0" no_constraints]
  by (simp add: march_2024 no_constraints_def)

text \<open>
  Claim C2. On a complete range \<open>validateRange\<close> is the first error of the rules taken in
  the order minDate, maxDate, blackout, invalid range, minDuration, maxDuration, minTime,
  maxTime. In particular a range whose start is before \<open>minDate\<close> and whose duration
  exceeds \<open>maxDuration\<close> gets the \<open>min_date\<close> error.
\<close>

theorem validateRange_rule_order:
  assumes "start r = Some s" and "end' r = Some e"
  shows "validateRange toNumber r c =
           first_error (map (\<lambda>rule. rule s e c) (rules_in_order toNumber)) \<and>
         (\<forall>m d. minDate c = Some m \<and> date_lt s m \<and>
                maxDuration c = Some d \<and> num_gt (duration_minutes s e) d \<longrightarrow>
            validateRange toNumber r c =
              Some \<lparr>type = min_date, message = Start_date_must_be_after m\<rparr>)"
proof (intro conjI allI impI)
  have chain: "validateRange toNumber r c =
     first_error [rule_minDate s e c, rule_maxDate s e c, rule_blackout s e c,
       rule_invalid_range s e c, rule_minDuration s e c, rule_maxDuration s e c,
       rule_minTime toNumber s e c, rule_maxTime toNumber s e c]"
    using assms by (rule validateRange_chain)
  show "validateRange toNumber r c =
           first_error (map (\<lambda>rule. rule s e c) (rules_in_order toNumber))"
    unfolding chain rules_in_order_def list.map ..
  fix m d
  assume "minDate c = Some m \<and> date_lt s m \<and>
          maxDuration c = Some d \<and> num_gt (duration_minutes s e) d"
  then have "rule_minDate s e c =
      Some \<lparr>type = min_date, message = Start_date_must_be_after m\<rparr>"
    by (simp add: rule_minDate_def)
  then show "validateRange toNumber r c =
      Some \<lparr>type = min_date, message = Start_date_must_be_after m\<rparr>"
    unfolding chain by simp
qed

theorem validateRange_rule_order_witness:
  "date_lt (Date_UTC 2024 2 15 10 0 0) (Date_UTC 2024 2 20 0 0 0) \<and>
   num_gt (duration_minutes (Date_UTC 2024 2 15 10 0 0) (Date_UTC 2024 2 15 20 0 0)) (Num 480) \<and>
   validateRange Number_of_digits
     \<lparr>start = Some (Date_UTC 2024 2 15 10 0 0), end' = Some (Date_UTC 2024 2 15 20 0 0)\<rparr>
     (no_constraints\<lparr>minDate := Some (Date_UTC 2024 2 20 0 0 0),
        maxDuration := Some (Num 480)\<rparr>) =
   Some \<lparr>type = min_date, message = Start_date_must_be_after (Date_UTC 2024 2 20 0 0 0)\<rparr>"
proof -
  let ?r = "\<lparr>start = Some (Date_UTC 2024 2 15 10 0 0), end' = Some (Date_UTC 2024 2 15 20 0 0)\<rparr>"
  let ?c = "no_constraints\<lparr>minDate := Some (Date_UTC 2024 2 20 0 0 0),
        maxDuration := Some (Num 480)\<rparr>"
  have lt: "date_lt (Date_UTC 2024 2 15 10 0 0) (Date_UTC 2024 2 20 0 0 0)"
    by (simp add: march_2024)
  have gt: "num_gt (duration_minutes (Date_UTC 2024 2 15 10 0 0) (Date_UTC 2024 2 15 20 0 0))
      (Num 480)"
    by (simp add: march_2024 duration_minutes_def num_gt_def)
  have "minDate ?c = Some (Date_UTC 2024 2 20 0 0 0) \<and> maxDuration ?c = Some (Num 480)"
    by (simp add: no_constraints_def)
  with lt gt show ?thesis
    using validateRange_rule_order [of ?r "Date_UTC 2024 2 15 10 0 0"
        "Date_UTC 2024 2 15 20 0 0" Number_of_digits ?c]
    by auto
qed

section \<open>Facts about the calendar\<close>

lemma div_bounds:
  assumes "0 < (k::int)"
  shows "k * (x div k) \<le> x" and "x < k * (x div k) + k"
  using pos_mod_sign [OF assms, of x] pos_mod_bound [OF assms, of x] mult_div_mod_eq [of k x]
  by linarith+

lemma DayFromYear_estimate:
  "146097 * y - 287811596 \<le> 400 * DayFromYear y"
  "400 * DayFromYear y \<le> 146097 * y - 287810501"
proof -
  define a b c where "a = (y - 1969) div 4" and "b = (y - 1901) div 100"
    and "c = (y - 1601) div 400"
  have dfy: "400 * DayFromYear y = 146000 * y - 287620000 + 400 * a - 400 * b + 400 * c"
    by (simp add: DayFromYear_def a_def b_def c_def)
  have "4 * a \<le> y - 1969" "y - 1969 < 4 * a + 4"
       "100 * b \<le> y - 1901" "y - 1901 < 100 * b + 100"
       "400 * c \<le> y - 1601" "y - 1601 < 400 * c + 400"
    unfolding a_def b_def c_def by (simp_all add: div_bounds)
  then have "4 * a \<le> y - 1969" "y - 1972 \<le> 4 * a"
       "100 * b \<le> y - 1901" "y - 2000 \<le> 100 * b"
       "400 * c \<le> y - 1601" "y - 2000 \<le> 400 * c"
    by linarith+
  then show "146097 * y - 287811596 \<le> 400 * DayFromYear y"
    and "400 * DayFromYear y \<le> 146097 * y - 287810501"
    unfolding dfy by linarith+
qed

lemma YearFromDay_correct:
  "DayFromYear (YearFromDay d) \<le> d" "d < DayFromYear (YearFromDay d + 1)"
proof -
  define y0 where "y0 = 1970 + (400 * d) div 146097"
  define q where "q = (400 * d) div 146097"
  have y0: "y0 = 1970 + q" by (simp add: y0_def q_def)
  have "146097 * q \<le> 400 * d" "400 * d < 146097 * q + 146097"
    unfolding q_def using div_bounds [of 146097 "400 * d"] by simp_all
  moreover have "400 * DayFromYear (y0 - 1) \<le> 146097 * q - 145508"
    using DayFromYear_estimate(2) [of "y0 - 1"] unfolding y0 by simp
  moreover have "146097 * q + 292194 - 506 \<le> 400 * DayFromYear (y0 + 2)"
    using DayFromYear_estimate(1) [of "y0 + 2"] unfolding y0 by simp
  ultimately have a: "DayFromYear (y0 - 1) \<le> d" and b: "d < DayFromYear (y0 + 2)"
    by linarith+
  have y: "YearFromDay d =
      (if DayFromYear (y0 + 1) \<le> d then y0 + 1 else if DayFromYear y0 \<le> d then y0 else y0 - 1)"
    by (simp add: YearFromDay_def y0_def Let_def)
  show "DayFromYear (YearFromDay d) \<le> d"
    unfolding y using a by simp
  show "d < DayFromYear (YearFromDay d + 1)"
    unfolding y using b by (simp add: add.commute)
qed

lemma div_succ:
  fixes x k :: int
  assumes "0 < k"
  shows "(x + 1) div k = x div k + (if (x + 1) mod k = 0 then 1 else 0)"
proof (cases "x mod k + 1 < k")
  case True
  have eq: "x + 1 = k * (x div k) + (x mod k + 1)"
    using mult_div_mod_eq [of k x] by linarith
  have nonneg: "0 \<le> x mod k + 1"
    using pos_mod_sign [OF assms, of x] by linarith
  have "(x + 1) div k = x div k"
    using eq nonneg True by (rule int_div_pos_eq)
  moreover have "(x + 1) mod k = x mod k + 1"
    using eq nonneg True by (rule int_mod_pos_eq)
  ultimately show ?thesis
    using pos_mod_sign [OF assms, of x] by simp
next
  case False
  then have r: "x mod k + 1 = k"
    using pos_mod_bound [OF assms, of x] by linarith
  have "k * (x div k + 1) = k * (x div k) + k"
    by (simp add: algebra_simps)
  then have eq: "x + 1 = k * (x div k + 1) + 0"
    using mult_div_mod_eq [of k x] r by linarith
  have "(x + 1) div k = x div k + 1"
    using eq _ assms by (rule int_div_pos_eq) simp
  moreover have "(x + 1) mod k = 0"
    using eq _ assms by (rule int_mod_pos_eq) simp
  ultimately show ?thesis by simp
qed

lemma DayFromYear_Suc: "DayFromYear (y + 1) = DayFromYear y + DaysInYear y"
proof -
  have m4: "(y - 1969 + 1) mod 4 = y mod 4"
    using mod_diff_right_eq [of y 1968 4, symmetric] by simp
  have m100: "(y - 1901 + 1) mod 100 = y mod 100"
    using mod_diff_right_eq [of y 1900 100, symmetric] by simp
  have m400: "(y - 1601 + 1) mod 400 = y mod 400"
    using mod_diff_right_eq [of y 1600 400, symmetric] by simp
  have a: "(y + 1 - 1969) div 4 = (y - 1969) div 4 + (if y mod 4 = 0 then 1 else 0)"
    using div_succ [of 4 "y - 1969"] unfolding m4 by (simp add: algebra_simps)
  have b: "(y + 1 - 1901) div 100 = (y - 1901) div 100 + (if y mod 100 = 0 then 1 else 0)"
    using div_succ [of 100 "y - 1901"] unfolding m100 by (simp add: algebra_simps)
  have c: "(y + 1 - 1601) div 400 = (y - 1601) div 400 + (if y mod 400 = 0 then 1 else 0)"
    using div_succ [of 400 "y - 1601"] unfolding m400 by (simp add: algebra_simps)
  have d: "y mod 400 = 0 \<Longrightarrow> y mod 100 = 0" "y mod 100 = 0 \<Longrightarrow> y mod 4 = 0"
    by (auto simp: mod_eq_0_iff_dvd elim: dvd_trans [rotated])
  show ?thesis
    unfolding DayFromYear_def DaysInYear_def a b c using d by auto
qed

lemma DayWithinYear_range:
  "0 \<le> DayWithinYear t" "DayWithinYear t < DaysInYear (YearFromTime t)"
  using YearFromDay_correct [of "Day t"] DayFromYear_Suc [of "YearFromTime t"]
  by (simp_all add: DayWithinYear_def YearFromTime_def)

lemma tz_fields_utc:
  "tz_fields utc_format t =
     (YearFromTime t, MonthFromTime t, DateFromTime t, HourFromTime t, MinFromTime t)"
  by (simp add: tz_fields_def utc_format_def Let_def)

lemma InLeapYear_cases: "InLeapYear t = 0 \<or> InLeapYear t = 1"
  by (simp add: InLeapYear_def)

lemma DaysInYear_leap: "DaysInYear (YearFromTime t) = 365 + InLeapYear t"
  by (simp add: InLeapYear_def DaysInYear_def)

lemma MonthFromTime_range: "0 \<le> MonthFromTime t" "MonthFromTime t \<le> 11"
  by (simp_all add: MonthFromTime_def Let_def)

lemma DateFromTime_range:
  "1 \<le> DateFromTime t" "DateFromTime t \<le> days_in_month (YearFromTime t) (MonthFromTime t)"
proof -
  define dw l where "dw = DayWithinYear t" and "l = InLeapYear t"
  have r: "0 \<le> dw" "dw < 365 + l" "l = 0 \<or> l = 1"
    using DayWithinYear_range [of t] InLeapYear_cases [of t]
    by (simp_all add: dw_def l_def DaysInYear_leap)
  have leap: "(DaysInYear (YearFromTime t) = 366) = (l = 1)"
    using r(3) by (auto simp add: DaysInYear_leap l_def)
  show "1 \<le> DateFromTime t"
    unfolding DateFromTime_def MonthFromTime_def Let_def dw_def [symmetric] l_def [symmetric]
    using r by auto
  show "DateFromTime t \<le> days_in_month (YearFromTime t) (MonthFromTime t)"
    unfolding DateFromTime_def MonthFromTime_def days_in_month_def leap Let_def
      dw_def [symmetric] l_def [symmetric]
    using r by auto
qed

lemma HourFromTime_range: "0 \<le> HourFromTime t" "HourFromTime t \<le> 23"
  using pos_mod_bound [of 24 "t div msPerHour"]
  by (simp_all add: HourFromTime_def)

lemma MinFromTime_range: "0 \<le> MinFromTime t" "MinFromTime t \<le> 59"
  using pos_mod_bound [of 60 "t div msPerMinute"]
  by (simp_all add: MinFromTime_def)

lemma utc_format_well_formed: "well_formed_civil (tz_fields utc_format t)"
  unfolding tz_fields_utc well_formed_civil.simps
  using MonthFromTime_range [of t] DateFromTime_range [of t] HourFromTime_range [of t]
    MinFromTime_range [of t]
  by blast

lemma DaysInYear_pos: "0 < DaysInYear y"
  by (simp add: DaysInYear_def)

lemma DayFromYear_mono: "y \<le> y' \<Longrightarrow> DayFromYear y \<le> DayFromYear y'"
proof (induction y' rule: int_ge_induct)
  case base
  show ?case by simp
next
  case (step i)
  then show ?case
    using DayFromYear_Suc [of i] DaysInYear_pos [of i] by linarith
qed

lemma DayFromYear_less: "DayFromYear y < DayFromYear y' \<Longrightarrow> y < y'"
  using DayFromYear_mono [of y' y] by linarith

text \<open>The year of a day number is the only year whose days contain it.\<close>

lemma YearFromDay_unique:
  assumes "DayFromYear y \<le> d" and "d < DayFromYear (y + 1)"
  shows "YearFromDay d = y"
proof -
  have "DayFromYear y < DayFromYear (YearFromDay d + 1)"
    using assms(1) YearFromDay_correct(2) [of d] by linarith
  then have "y < YearFromDay d + 1" by (rule DayFromYear_less)
  moreover have "DayFromYear (YearFromDay d) < DayFromYear (y + 1)"
    using assms(2) YearFromDay_correct(1) [of d] by linarith
  then have "YearFromDay d < y + 1" by (rule DayFromYear_less)
  ultimately show ?thesis by linarith
qed

lemma YearFromDay_mono: "d \<le> d' \<Longrightarrow> YearFromDay d \<le> YearFromDay d'"
proof -
  assume "d \<le> d'"
  then have "DayFromYear (YearFromDay d) < DayFromYear (YearFromDay d' + 1)"
    using YearFromDay_correct(1) [of d] YearFromDay_correct(2) [of d'] by linarith
  then have "YearFromDay d < YearFromDay d' + 1" by (rule DayFromYear_less)
  then show ?thesis by linarith
qed

text \<open>The UTC fields of an instant are functions of its minute number.\<close>

lemma Hour_of_minute: "HourFromTime t = ((t div msPerMinute) div 60) mod 24"
  using zdiv_zmult2_eq [of 60 t 60000]
  by (simp add: HourFromTime_def msPerHour_def msPerMinute_def)

lemma hours_of_day: "(t div msPerMinute) div 60 = 24 * Day t + HourFromTime t"
proof -
  have "Day t = ((t div msPerMinute) div 60) div 24"
    using zdiv_zmult2_eq [of 60 t 60000] zdiv_zmult2_eq [of 24 t 3600000]
    by (simp add: Day_def msPerDay_def msPerMinute_def)
  then show ?thesis
    unfolding Hour_of_minute using mult_div_mod_eq [of 24 "(t div msPerMinute) div 60"] by simp
qed

lemma minutes_of_hour: "t div msPerMinute = 60 * ((t div msPerMinute) div 60) + MinFromTime t"
  unfolding MinFromTime_def using mult_div_mod_eq [of 60 "t div msPerMinute"] by simp

lemma minute_number: "t div msPerMinute = 1440 * Day t + 60 * HourFromTime t + MinFromTime t"
  using minutes_of_hour [of t] hours_of_day [of t] by linarith

text \<open>Month and day of the month, as functions of the day within the year.\<close>

lemma month_date_mono:
  assumes "DayWithinYear t1 \<le> DayWithinYear t2" and "InLeapYear t1 = InLeapYear t2"
  shows "MonthFromTime t1 \<le> MonthFromTime t2"
    and "MonthFromTime t1 = MonthFromTime t2 \<Longrightarrow> DateFromTime t1 \<le> DateFromTime t2"
    and "MonthFromTime t1 = MonthFromTime t2 \<Longrightarrow> DateFromTime t1 = DateFromTime t2 \<Longrightarrow>
           DayWithinYear t1 = DayWithinYear t2"
proof -
  define a b l where "a = DayWithinYear t1" and "b = DayWithinYear t2" and "l = InLeapYear t2"
  have ab: "a \<le> b" using assms(1) by (simp add: a_def b_def)
  have l1: "InLeapYear t1 = l" using assms(2) by (simp add: l_def)
  show "MonthFromTime t1 \<le> MonthFromTime t2"
    unfolding MonthFromTime_def Let_def l1 a_def [symmetric] b_def [symmetric] l_def [symmetric]
    using ab by auto
  show "MonthFromTime t1 = MonthFromTime t2 \<Longrightarrow> DateFromTime t1 \<le> DateFromTime t2"
    unfolding DateFromTime_def Let_def l1 a_def [symmetric] b_def [symmetric] l_def [symmetric]
    using ab by auto
  show "MonthFromTime t1 = MonthFromTime t2 \<Longrightarrow> DateFromTime t1 = DateFromTime t2 \<Longrightarrow>
           DayWithinYear t1 = DayWithinYear t2"
    unfolding DateFromTime_def Let_def l1 a_def [symmetric] b_def [symmetric] l_def [symmetric]
    by (auto split: if_splits)
qed

section \<open>Facts about the search\<close>

lemma TimeClip_Date: "\<bar>t\<bar> \<le> 8640000000000000 \<Longrightarrow> TimeClip t = Date t"
  by (simp add: TimeClip_def)

lemma TimeClip_eq_Date: "TimeClip t = Date tv \<Longrightarrow> tv = t"
  by (simp add: TimeClip_def split: if_splits)

lemma comparison_target:
  "comparison (tz_fields fmt t) (year, month, day, hour, minute) =
     (if year_part (fmt t) \<noteq> year then (if year_part (fmt t) < year then - 1 else 1)
      else if month_part (fmt t) - 1 \<noteq> month
        then (if month_part (fmt t) - 1 < month then - 1 else 1)
      else if day_part (fmt t) \<noteq> day then (if day_part (fmt t) < day then - 1 else 1)
      else if hour_part (fmt t) \<noteq> hour then (if hour_part (fmt t) < hour then - 1 else 1)
      else if minute_part (fmt t) \<noteq> minute
        then (if minute_part (fmt t) < minute then - 1 else 1)
      else 0)"
  by (simp only: tz_fields_def Let_def comparison.simps)

lemma search_Suc:
  "search (Suc n) fmt year month day hour minute low high bestDate =
     (case TimeClip ((low + high) div 2) of
        InvalidDate \<Rightarrow> Inl RangeError
      | Date tv \<Rightarrow>
          if tz_fields fmt tv = (year, month, day, hour, minute) then Inr (Date tv)
          else if comparison (tz_fields fmt tv) (year, month, day, hour, minute) < 0
          then search n fmt year month day hour minute ((low + high) div 2 + 1) high bestDate
          else search n fmt year month day hour minute low ((low + high) div 2 - 1) bestDate)"
proof (cases "TimeClip ((low + high) div 2)")
  case InvalidDate
  then show ?thesis by simp
next
  case (Date tv)
  have m: "tz_fields fmt tv = (year, month, day, hour, minute) \<longleftrightarrow>
      year_part (fmt tv) = year \<and> month_part (fmt tv) - 1 = month \<and> day_part (fmt tv) = day \<and>
      hour_part (fmt tv) = hour \<and> minute_part (fmt tv) = minute"
    by (simp add: tz_fields_def Let_def)
  show ?thesis
    unfolding search.simps Let_def Date date.case m comparison_target ..
qed

lemma midpoint:
  fixes low high :: int
  assumes "low \<le> high"
  shows "low \<le> (low + high) div 2" and "(low + high) div 2 \<le> high"
  using div_bounds [of 2 "low + high"] assms by linarith+

lemma halving:
  fixes low high p :: int
  assumes "3 * (2 * p) \<le> high - low + 3" and "0 < p"
  shows "low \<le> (low + high) div 2" and "(low + high) div 2 \<le> high"
    and "3 * p \<le> high - ((low + high) div 2 + 1) + 3"
    and "3 * p \<le> ((low + high) div 2 - 1) - low + 3"
  using div_bounds [of 2 "low + high"] assms by linarith+


lemma tested_Suc:
  "tested (Suc n) fmt target low high =
     (case TimeClip ((low + high) div 2) of
        InvalidDate \<Rightarrow> []
      | Date tv \<Rightarrow>
          if tz_fields fmt tv = target then [tv]
          else if comparison (tz_fields fmt tv) target < 0
          then tv # tested n fmt target ((low + high) div 2 + 1) high
          else tv # tested n fmt target low ((low + high) div 2 - 1))"
  by (simp add: Let_def)

lemma search_step:
  assumes "TimeClip ((low + high) div 2) = Date tv"
  shows "search (Suc n) fmt y m d h mi low high best =
     (if tz_fields fmt tv = (y, m, d, h, mi) then Inr (Date tv)
      else if comparison (tz_fields fmt tv) (y, m, d, h, mi) < 0
      then search n fmt y m d h mi ((low + high) div 2 + 1) high best
      else search n fmt y m d h mi low ((low + high) div 2 - 1) best)"
  unfolding search_Suc assms date.case ..

lemma tested_step:
  assumes "TimeClip ((low + high) div 2) = Date tv"
  shows "tested (Suc n) fmt target low high =
     (if tz_fields fmt tv = target then [tv]
      else if comparison (tz_fields fmt tv) target < 0
      then tv # tested n fmt target ((low + high) div 2 + 1) high
      else tv # tested n fmt target low ((low + high) div 2 - 1))"
  unfolding tested_Suc assms date.case ..

text \<open>What the search returns is the incoming best date or a tested instant.\<close>

lemma search_result_tested:
  "search n fmt y m d h mi low high best = Inr r \<Longrightarrow>
     r = best \<or> (\<exists>t \<in> set (tested n fmt (y, m, d, h, mi) low high).
        r = Date t \<and> tz_fields fmt t = (y, m, d, h, mi))"
proof (induction n arbitrary: low high)
  case 0
  then show ?case by simp
next
  case (Suc n)
  let ?mid = "(low + high) div 2"
  show ?case
  proof (cases "TimeClip ?mid")
    case InvalidDate
    with Suc.prems show ?thesis by (simp add: search_Suc del: search.simps)
  next
    case (Date tv)
    note s = search_step [OF Date, of n fmt y m d h mi best]
    note t = tested_step [OF Date, of n fmt "(y, m, d, h, mi)"]
    show ?thesis
    proof (cases "tz_fields fmt tv = (y, m, d, h, mi)")
      case True
      from Suc.prems have "r = Date tv" unfolding s using True by simp
      then show ?thesis unfolding t using True by simp
    next
      case False
      show ?thesis
      proof (cases "comparison (tz_fields fmt tv) (y, m, d, h, mi) < 0")
        case True
        from Suc.prems have "search n fmt y m d h mi (?mid + 1) high best = Inr r"
          unfolding s using False True by simp
        from Suc.IH [OF this] show ?thesis
          unfolding t using False True by auto
      next
        case ge: False
        from Suc.prems have "search n fmt y m d h mi low (?mid - 1) best = Inr r"
          unfolding s using False ge by simp
        from Suc.IH [OF this] show ?thesis
          unfolding t using False ge by auto
      qed
    qed
  qed
qed

text \<open>
  While the window is wide enough for the iterations that remain, every tested instant
  lies in the window.
\<close>

lemma tested_in_window:
  "3 * 2 ^ n \<le> high - low + 3 \<Longrightarrow> t \<in> set (tested n fmt target low high) \<Longrightarrow>
     low \<le> t \<and> t \<le> high"
proof (induction n arbitrary: low high)
  case 0
  then show ?case by simp
next
  case (Suc n)
  let ?mid = "(low + high) div 2"
  have w: "3 * (2 * 2 ^ n) \<le> high - low + 3" and p: "(0::int) < 2 ^ n"
    using Suc.prems(1) by simp_all
  note h = halving [OF w p]
  show ?case
  proof (cases "TimeClip ?mid")
    case InvalidDate
    with Suc.prems(2) show ?thesis by (simp add: tested_Suc del: tested.simps)
  next
    case (Date tv)
    then have tv: "tv = ?mid" by (rule TimeClip_eq_Date)
    from Suc.prems(2) consider "t = tv"
      | "t \<in> set (tested n fmt target (?mid + 1) high)"
      | "t \<in> set (tested n fmt target low (?mid - 1))"
      unfolding tested_step [OF Date] by (auto split: if_splits)
    then show ?thesis
    proof cases
      case 1
      with tv h(1,2) show ?thesis by simp
    next
      case 2
      from Suc.IH [OF h(3) this] h(1) show ?thesis by linarith
    next
      case 3
      from Suc.IH [OF h(4) this] h(2) show ?thesis by linarith
    qed
  qed
qed

text \<open>Inside the range of time values the search returns.\<close>

lemma search_returns:
  "3 * 2 ^ n \<le> high - low + 3 \<Longrightarrow> - 8640000000000000 \<le> low \<Longrightarrow>
   high \<le> 8640000000000000 \<Longrightarrow> \<exists>r. search n fmt y m d h mi low high best = Inr r"
proof (induction n arbitrary: low high)
  case 0
  show ?case by simp
next
  case (Suc n)
  let ?mid = "(low + high) div 2"
  have w: "3 * (2 * 2 ^ n) \<le> high - low + 3" and p: "(0::int) < 2 ^ n"
    using Suc.prems(1) by simp_all
  note h = halving [OF w p]
  have "\<bar>?mid\<bar> \<le> 8640000000000000"
    using h(1,2) Suc.prems(2,3) by linarith
  then have clip: "TimeClip ?mid = Date ?mid" by (rule TimeClip_Date)
  have lo: "\<exists>r. search n fmt y m d h mi (?mid + 1) high best = Inr r"
    using Suc.IH [OF h(3)] h(1) Suc.prems(2,3) by simp
  have hi: "\<exists>r. search n fmt y m d h mi low (?mid - 1) best = Inr r"
    using Suc.IH [OF h(4)] h(2) Suc.prems(2,3) by simp
  show ?case
    unfolding search_step [OF clip] using lo hi by simp
qed

text \<open>When no tested instant matches, the search returns the incoming best date.\<close>

lemma search_no_match:
  "3 * 2 ^ n \<le> high - low + 3 \<Longrightarrow> - 8640000000000000 \<le> low \<Longrightarrow>
   high \<le> 8640000000000000 \<Longrightarrow>
   \<forall>t \<in> set (tested n fmt (y, m, d, h, mi) low high). tz_fields fmt t \<noteq> (y, m, d, h, mi) \<Longrightarrow>
   search n fmt y m d h mi low high best = Inr best"
proof (induction n arbitrary: low high)
  case 0
  show ?case by simp
next
  case (Suc n)
  let ?mid = "(low + high) div 2"
  have w: "3 * (2 * 2 ^ n) \<le> high - low + 3" and p: "(0::int) < 2 ^ n"
    using Suc.prems(1) by simp_all
  note h = halving [OF w p]
  have "\<bar>?mid\<bar> \<le> 8640000000000000"
    using h(1,2) Suc.prems(2,3) by linarith
  then have clip: "TimeClip ?mid = Date ?mid" by (rule TimeClip_Date)
  note s = search_step [OF clip, of n fmt y m d h mi best]
  note t = tested_step [OF clip, of n fmt "(y, m, d, h, mi)"]
  have nomatch: "tz_fields fmt ?mid \<noteq> (y, m, d, h, mi)"
    using Suc.prems(4) unfolding t by (auto split: if_splits)
  show ?case
  proof (cases "comparison (tz_fields fmt ?mid) (y, m, d, h, mi) < 0")
    case True
    have "\<forall>t \<in> set (tested n fmt (y, m, d, h, mi) (?mid + 1) high).
        tz_fields fmt t \<noteq> (y, m, d, h, mi)"
      using Suc.prems(4) nomatch True unfolding t by simp
    then have "search n fmt y m d h mi (?mid + 1) high best = Inr best"
      using Suc.IH [OF h(3)] h(1) Suc.prems(2,3) by simp
    then show ?thesis
      unfolding s using nomatch True by simp
  next
    case False
    have "\<forall>t \<in> set (tested n fmt (y, m, d, h, mi) low (?mid - 1)).
        tz_fields fmt t \<noteq> (y, m, d, h, mi)"
      using Suc.prems(4) nomatch False unfolding t by simp
    then have "search n fmt y m d h mi low (?mid - 1) best = Inr best"
      using Suc.IH [OF h(4)] h(2) Suc.prems(2,3) by simp
    then show ?thesis
      unfolding s using nomatch False by simp
  qed
qed


lemma createDateInTimezone_search:
  assumes "host tz = Some fmt" and "Date_UTC y m d h mi 0 = Date rough"
  shows "createDateInTimezone host y m d h mi tz =
     search 20 fmt y m d h mi (rough - 86400000) (rough + 86400000) (Date rough)"
  using assms by (simp add: createDateInTimezone_def)

lemma window_20: "3 * 2 ^ 20 \<le> (rough + 86400000) - (rough - 86400000) + (3::int)"
  by simp

lemma occurrence_width: "occurrence fmt target low high \<Longrightarrow> low + 164 \<le> high"
  unfolding occurrence_def by force

lemma occurrence_less:
  assumes occ: "occurrence fmt target low high"
    and mid: "low \<le> mid" "mid \<le> high"
    and nomatch: "tz_fields fmt mid \<noteq> target"
    and less: "comparison (tz_fields fmt mid) target < 0"
  shows "occurrence fmt target (mid + 1) high"
proof -
  from occ obtain A B where ab: "low \<le> A" "A + 164 \<le> B" "B \<le> high"
    and inside: "\<forall>t. A \<le> t \<and> t \<le> B \<longrightarrow> tz_fields fmt t = target"
    and before: "\<forall>t. low \<le> t \<and> t < A \<longrightarrow>
           tz_fields fmt t = target \<or> comparison (tz_fields fmt t) target < 0"
    and after: "\<forall>t. B < t \<and> t \<le> high \<longrightarrow>
           tz_fields fmt t = target \<or> 0 \<le> comparison (tz_fields fmt t) target"
    unfolding occurrence_def by blast
  have "\<not> (A \<le> mid \<and> mid \<le> B)" using inside nomatch by blast
  moreover have "\<not> B < mid"
  proof
    assume "B < mid"
    with after mid(2) have "tz_fields fmt mid = target \<or> 0 \<le> comparison (tz_fields fmt mid) target"
      by blast
    with nomatch less show False by linarith
  qed
  ultimately have "mid + 1 \<le> A" by linarith
  moreover have "\<forall>t. mid + 1 \<le> t \<and> t < A \<longrightarrow>
           tz_fields fmt t = target \<or> comparison (tz_fields fmt t) target < 0"
  proof (intro allI impI)
    fix t
    assume "mid + 1 \<le> t \<and> t < A"
    then have "low \<le> t \<and> t < A" using mid(1) by linarith
    with before show "tz_fields fmt t = target \<or> comparison (tz_fields fmt t) target < 0"
      by blast
  qed
  ultimately show ?thesis
    unfolding occurrence_def using ab(2,3) inside after by blast
qed

lemma occurrence_not_less:
  assumes occ: "occurrence fmt target low high"
    and mid: "low \<le> mid" "mid \<le> high"
    and nomatch: "tz_fields fmt mid \<noteq> target"
    and ge: "\<not> comparison (tz_fields fmt mid) target < 0"
  shows "occurrence fmt target low (mid - 1)"
proof -
  from occ obtain A B where ab: "low \<le> A" "A + 164 \<le> B" "B \<le> high"
    and inside: "\<forall>t. A \<le> t \<and> t \<le> B \<longrightarrow> tz_fields fmt t = target"
    and before: "\<forall>t. low \<le> t \<and> t < A \<longrightarrow>
           tz_fields fmt t = target \<or> comparison (tz_fields fmt t) target < 0"
    and after: "\<forall>t. B < t \<and> t \<le> high \<longrightarrow>
           tz_fields fmt t = target \<or> 0 \<le> comparison (tz_fields fmt t) target"
    unfolding occurrence_def by blast
  have "\<not> (A \<le> mid \<and> mid \<le> B)" using inside nomatch by blast
  moreover have "\<not> mid < A"
  proof
    assume "mid < A"
    with before mid(1) have "tz_fields fmt mid = target \<or> comparison (tz_fields fmt mid) target < 0"
      by blast
    with nomatch ge show False by blast
  qed
  ultimately have "B \<le> mid - 1" by linarith
  moreover have "\<forall>t. B < t \<and> t \<le> mid - 1 \<longrightarrow>
           tz_fields fmt t = target \<or> 0 \<le> comparison (tz_fields fmt t) target"
  proof (intro allI impI)
    fix t
    assume "B < t \<and> t \<le> mid - 1"
    then have "B < t \<and> t \<le> high" using mid(2) by linarith
    with after show "tz_fields fmt t = target \<or> 0 \<le> comparison (tz_fields fmt t) target"
      by blast
  qed
  ultimately show ?thesis
    unfolding occurrence_def using ab(1,2) inside before by blast
qed

lemma resolvable_width:
  assumes "resolvable fmt target low high"
  shows "low + 164 \<le> high"
proof -
  from assms consider "occurrence fmt target low high"
    | F where "occurrence fmt target low (F - 1)" "occurrence fmt target F high"
    unfolding resolvable_def by blast
  then show ?thesis
  proof cases
    case 1
    then show ?thesis by (rule occurrence_width)
  next
    case 2
    from occurrence_width [OF 2(1)] occurrence_width [OF 2(2)] show ?thesis by linarith
  qed
qed

lemma resolvable_less:
  assumes res: "resolvable fmt target low high"
    and mid: "low \<le> mid" "mid \<le> high"
    and nomatch: "tz_fields fmt mid \<noteq> target"
    and less: "comparison (tz_fields fmt mid) target < 0"
  shows "resolvable fmt target (mid + 1) high"
proof -
  from res consider "occurrence fmt target low high"
    | F where "occurrence fmt target low (F - 1)" "occurrence fmt target F high"
    unfolding resolvable_def by blast
  then show ?thesis
  proof cases
    case 1
    from occurrence_less [OF 1 mid nomatch less] show ?thesis
      unfolding resolvable_def by blast
  next
    case 2
    show ?thesis
    proof (cases "mid \<le> F - 1")
      case True
      from occurrence_less [OF 2(1) mid(1) True nomatch less] 2(2) show ?thesis
        unfolding resolvable_def by blast
    next
      case False
      then have "F \<le> mid" by simp
      from occurrence_less [OF 2(2) this mid(2) nomatch less] show ?thesis
        unfolding resolvable_def by blast
    qed
  qed
qed

lemma resolvable_not_less:
  assumes res: "resolvable fmt target low high"
    and mid: "low \<le> mid" "mid \<le> high"
    and nomatch: "tz_fields fmt mid \<noteq> target"
    and ge: "\<not> comparison (tz_fields fmt mid) target < 0"
  shows "resolvable fmt target low (mid - 1)"
proof -
  from res consider "occurrence fmt target low high"
    | F where "occurrence fmt target low (F - 1)" "occurrence fmt target F high"
    unfolding resolvable_def by blast
  then show ?thesis
  proof cases
    case 1
    from occurrence_not_less [OF 1 mid nomatch ge] show ?thesis
      unfolding resolvable_def by blast
  next
    case 2
    show ?thesis
    proof (cases "mid \<le> F - 1")
      case True
      from occurrence_not_less [OF 2(1) mid(1) True nomatch ge] show ?thesis
        unfolding resolvable_def by blast
    next
      case False
      then have "F \<le> mid" by simp
      from occurrence_not_less [OF 2(2) this mid(2) nomatch ge] 2(1) show ?thesis
        unfolding resolvable_def by blast
    qed
  qed
qed

lemma search_finds:
  "resolvable fmt (y, m, d, h, mi) low high \<Longrightarrow> high - low + 1 < 165 * 2 ^ n \<Longrightarrow>
   - 8640000000000000 \<le> low \<Longrightarrow> high \<le> 8640000000000000 \<Longrightarrow>
   \<exists>t. search n fmt y m d h mi low high best = Inr (Date t) \<and>
     tz_fields fmt t = (y, m, d, h, mi)"
proof (induction n arbitrary: low high)
  case 0
  from resolvable_width [OF 0(1)] 0(2) show ?case by simp
next
  case (Suc n)
  let ?mid = "(low + high) div 2"
  have lh: "low \<le> high" using resolvable_width [OF Suc.prems(1)] by linarith
  note mid = midpoint [OF lh]
  have "\<bar>?mid\<bar> \<le> 8640000000000000"
    using mid Suc.prems(3,4) by linarith
  then have clip: "TimeClip ?mid = Date ?mid" by (rule TimeClip_Date)
  note s = search_step [OF clip, of n fmt y m d h mi best]
  define p :: int where "p = 2 ^ n"
  have width: "high - low + 1 < 165 * (2 * p)"
    using Suc.prems(2) by (simp add: p_def)
  have half: "2 * ?mid \<le> low + high" "low + high < 2 * ?mid + 2"
    using div_bounds [of 2 "low + high"] by simp_all
  show ?case
  proof (cases "tz_fields fmt ?mid = (y, m, d, h, mi)")
    case True
    then show ?thesis unfolding s by simp
  next
    case False
    show ?thesis
    proof (cases "comparison (tz_fields fmt ?mid) (y, m, d, h, mi) < 0")
      case True
      have "high - (?mid + 1) + 1 < 165 * p"
        using width half by linarith
      then have "high - (?mid + 1) + 1 < 165 * 2 ^ n" by (simp add: p_def)
      from Suc.IH [OF resolvable_less [OF Suc.prems(1) mid False True] this]
      show ?thesis
        unfolding s using False True mid Suc.prems(3,4) by simp
    next
      case ge: False
      have "(?mid - 1) - low + 1 < 165 * p"
        using width half by linarith
      then have "(?mid - 1) - low + 1 < 165 * 2 ^ n" by (simp add: p_def)
      from Suc.IH [OF resolvable_not_less [OF Suc.prems(1) mid False ge] this]
      show ?thesis
        unfolding s using False ge mid Suc.prems(3,4) by simp
    qed
  qed
qed

lemma comparison_same: "comparison a a = 0"
  by (cases a rule: prod_cases5) simp

lemma comparison_zero: "comparison a b = 0 \<Longrightarrow> a = b"
  by (cases a rule: prod_cases5; cases b rule: prod_cases5) (simp split: if_splits)

lemma comparison_antisym: "comparison a b \<le> 0 \<Longrightarrow> 0 \<le> comparison b a"
  by (cases a rule: prod_cases5; cases b rule: prod_cases5) (simp split: if_splits)

lemma comparison_lex:
  "comparison (y1, m1, d1, h1, i1) (y2, m2, d2, h2, i2) \<le> 0 \<longleftrightarrow>
     y1 < y2 \<or> (y1 = y2 \<and> (m1 < m2 \<or> (m1 = m2 \<and> (d1 < d2 \<or> (d1 = d2 \<and>
       (h1 < h2 \<or> (h1 = h2 \<and> i1 \<le> i2)))))))"
  by auto

lemma utc_fields_mono:
  assumes "t1 \<le> t2"
  shows "comparison (tz_fields utc_format t1) (tz_fields utc_format t2) \<le> 0"
proof -
  have day: "Day t1 \<le> Day t2"
    using assms by (simp add: Day_def msPerDay_def zdiv_mono1)
  have year: "YearFromTime t1 \<le> YearFromTime t2"
    unfolding YearFromTime_def using day by (rule YearFromDay_mono)
  have minute: "t1 div msPerMinute \<le> t2 div msPerMinute"
    using assms by (simp add: msPerMinute_def zdiv_mono1)
  have same_year: "YearFromTime t1 = YearFromTime t2 \<Longrightarrow>
      MonthFromTime t1 \<le> MonthFromTime t2 \<and>
      (MonthFromTime t1 = MonthFromTime t2 \<longrightarrow> DateFromTime t1 \<le> DateFromTime t2 \<and>
        (DateFromTime t1 = DateFromTime t2 \<longrightarrow> Day t1 = Day t2))"
  proof -
    assume eq: "YearFromTime t1 = YearFromTime t2"
    then have leap: "InLeapYear t1 = InLeapYear t2" by (simp add: InLeapYear_def)
    have dw: "DayWithinYear t1 \<le> DayWithinYear t2"
      using day eq by (simp add: DayWithinYear_def)
    have "MonthFromTime t1 = MonthFromTime t2 \<Longrightarrow> DateFromTime t1 = DateFromTime t2 \<Longrightarrow>
        Day t1 = Day t2"
      using month_date_mono(3) [OF dw leap] eq by (simp add: DayWithinYear_def)
    then show ?thesis
      using month_date_mono(1,2) [OF dw leap] by blast
  qed
  have same_day: "Day t1 = Day t2 \<Longrightarrow>
      HourFromTime t1 \<le> HourFromTime t2 \<and>
      (HourFromTime t1 = HourFromTime t2 \<longrightarrow> MinFromTime t1 \<le> MinFromTime t2)"
    using minute minute_number [of t1] minute_number [of t2]
      MinFromTime_range [of t1] MinFromTime_range [of t2]
    by auto
  show ?thesis
    unfolding tz_fields_utc comparison_lex
    using year same_year same_day by force
qed

lemma nondecreasing_occurrence:
  assumes mono: "nondecreasing fmt low high"
    and ab: "low \<le> A" "A + 164 \<le> B" "B \<le> high"
    and inside: "\<forall>t. A \<le> t \<and> t \<le> B \<longrightarrow> tz_fields fmt t = target"
  shows "occurrence fmt target low high"
proof -
  have atA: "tz_fields fmt A = target" and atB: "tz_fields fmt B = target"
    using inside ab(2) by auto
  have before: "\<forall>t. low \<le> t \<and> t < A \<longrightarrow>
      tz_fields fmt t = target \<or> comparison (tz_fields fmt t) target < 0"
  proof (intro allI impI)
    fix t
    assume t: "low \<le> t \<and> t < A"
    then have "low \<le> t \<and> t \<le> A \<and> A \<le> high" using ab by linarith
    with mono have le: "comparison (tz_fields fmt t) target \<le> 0"
      unfolding nondecreasing_def atA [symmetric] by blast
    show "tz_fields fmt t = target \<or> comparison (tz_fields fmt t) target < 0"
    proof (cases "comparison (tz_fields fmt t) target = 0")
      case True
      then show ?thesis using comparison_zero by blast
    next
      case False
      with le show ?thesis by linarith
    qed
  qed
  have after: "\<forall>t. B < t \<and> t \<le> high \<longrightarrow>
      tz_fields fmt t = target \<or> 0 \<le> comparison (tz_fields fmt t) target"
  proof (intro allI impI)
    fix t
    assume t: "B < t \<and> t \<le> high"
    then have "low \<le> B \<and> B \<le> t \<and> t \<le> high" using ab by linarith
    with mono have "comparison target (tz_fields fmt t) \<le> 0"
      unfolding nondecreasing_def atB [symmetric] by blast
    then show "tz_fields fmt t = target \<or> 0 \<le> comparison (tz_fields fmt t) target"
      using comparison_antisym by blast
  qed
  show ?thesis
    unfolding occurrence_def using ab inside before after by blast
qed

lemma utc_fields_of_minute:
  assumes "t div msPerMinute = t' div msPerMinute"
  shows "tz_fields utc_format t = tz_fields utc_format t'"
proof -
  have h: "(t div msPerMinute) div 60 = (t' div msPerMinute) div 60"
    using assms by simp
  have day: "Day t = Day t'"
  proof -
    have "\<And>u. Day u = ((u div msPerMinute) div 60) div 24"
    proof -
      fix u :: int
      show "Day u = ((u div msPerMinute) div 60) div 24"
        using zdiv_zmult2_eq [of 60 u 60000] zdiv_zmult2_eq [of 24 u 3600000]
        by (simp add: Day_def msPerDay_def msPerMinute_def)
    qed
    then show ?thesis using h by simp
  qed
  have "HourFromTime t = HourFromTime t'"
    using h by (simp add: Hour_of_minute)
  moreover have "MinFromTime t = MinFromTime t'"
    using assms by (simp add: MinFromTime_def)
  moreover have "YearFromTime t = YearFromTime t'"
    using day by (simp add: YearFromTime_def)
  moreover from this have "DayWithinYear t = DayWithinYear t'" "InLeapYear t = InLeapYear t'"
    using day by (simp_all add: DayWithinYear_def InLeapYear_def)
  then have "MonthFromTime t = MonthFromTime t'" "DateFromTime t = DateFromTime t'"
    by (simp_all add: MonthFromTime_def DateFromTime_def)
  ultimately show ?thesis by (simp add: tz_fields_utc)
qed

lemma same_minute:
  fixes r t :: int
  assumes "r mod 60000 = 0" and "r \<le> t" and "t \<le> r + 59999"
  shows "t div msPerMinute = r div msPerMinute"
proof -
  have r: "r = 60000 * (r div 60000)"
    using assms(1) mult_div_mod_eq [of 60000 r] by simp
  have "t = 60000 * (r div 60000) + (t - r)"
    using r by linarith
  then have "t div 60000 = r div 60000"
    using assms(2,3) by (intro int_div_pos_eq [of t 60000 "r div 60000" "t - r"]) simp_all
  then show ?thesis by (simp add: msPerMinute_def)
qed


text \<open>
  Building a time value from well-formed civil fields and reading the fields back gives
  the fields.
\<close>

lemma MakeDay_well_formed:
  assumes "0 \<le> m" and "m \<le> 11"
  shows "MakeDay y m d =
     DayFromYear y + DaysBeforeMonth (if DaysInYear y = 366 then 1 else 0) m + d - 1"
proof -
  have "m div 12 = 0" "m mod 12 = m" using assms by simp_all
  then show ?thesis by (simp add: MakeDay_def)
qed

lemma civil_fields_inverse:
  assumes wf: "well_formed_civil (y, m, d, h, mi)"
  shows "tz_fields utc_format (civil_ms (y, m, d, h, mi)) = (y, m, d, h, mi)"
    and "civil_ms (y, m, d, h, mi) mod 60000 = 0"
proof -
  define l :: int where "l = (if DaysInYear y = 366 then 1 else 0)"
  define dw where "dw = DaysBeforeMonth l m + d - 1"
  define T where "T = civil_ms (y, m, d, h, mi)"
  from wf have m: "0 \<le> m" "m \<le> 11" and d: "1 \<le> d" "d \<le> days_in_month y m"
    and h: "0 \<le> h" "h \<le> 23" and mi: "0 \<le> mi" "mi \<le> 59"
    by simp_all
  have l: "l = 0 \<or> l = 1" and diy: "DaysInYear y = 365 + l"
    by (simp_all add: l_def DaysInYear_def)
  have leap: "(DaysInYear y = 366) = (l = 1)" using l diy by auto
  consider "m = 0" | "m = 1" | "m = 2" | "m = 3" | "m = 4" | "m = 5" | "m = 6" | "m = 7"
    | "m = 8" | "m = 9" | "m = 10" | "m = 11"
    using m by atomize_elim presburger
  then have tbl: "0 \<le> dw \<and> dw < 365 + l \<and>
      (if dw < 31 then 0 else if dw < 59 + l then 1 else if dw < 90 + l then 2
       else if dw < 120 + l then 3 else if dw < 151 + l then 4 else if dw < 181 + l then 5
       else if dw < 212 + l then 6 else if dw < 243 + l then 7 else if dw < 273 + l then 8
       else if dw < 304 + l then 9 else if dw < 334 + l then 10 else 11) = m \<and>
      dw = DaysBeforeMonth l m + d - 1"
    using d l unfolding dw_def days_in_month_def leap DaysBeforeMonth_def
    by cases auto
  have T: "T = (DayFromYear y + dw) * 86400000 + (h * 3600000 + mi * 60000)"
    unfolding T_def dw_def l_def
    by (simp add: MakeDay_well_formed [OF m] MakeDate_def MakeTime_def msPerDay_def
        msPerHour_def msPerMinute_def msPerSecond_def)
  have time: "0 \<le> h * 3600000 + mi * 60000" "h * 3600000 + mi * 60000 < 86400000"
    using h mi by linarith+
  have day: "Day T = DayFromYear y + dw"
    unfolding Day_def msPerDay_def
    using time by (intro int_div_pos_eq [of T 86400000 _ "h * 3600000 + mi * 60000"])
      (simp_all add: T)
  have year: "YearFromTime T = y"
    unfolding YearFromTime_def day
    using tbl by (intro YearFromDay_unique) (simp_all add: DayFromYear_Suc diy)
  have dwy: "DayWithinYear T = dw" by (simp add: DayWithinYear_def day year)
  have ily: "InLeapYear T = l" by (simp add: InLeapYear_def year l_def)
  have month: "MonthFromTime T = m"
    unfolding MonthFromTime_def Let_def dwy ily using tbl by blast
  have date: "DateFromTime T = d"
    unfolding DateFromTime_def Let_def dwy ily month
    using tbl m unfolding DaysBeforeMonth_def by (auto split: if_splits)
  have eq: "T = 60000 * (1440 * (DayFromYear y + dw) + 60 * h + mi) + 0"
    unfolding T by simp
  have minutes: "T div 60000 = 1440 * (DayFromYear y + dw) + 60 * h + mi"
    using eq by (rule int_div_pos_eq) simp_all
  have mod0: "T mod 60000 = 0"
    using eq by (rule int_mod_pos_eq) simp_all
  have m60: "T div 60000 = 60 * (24 * (DayFromYear y + dw) + h) + mi"
    unfolding minutes by simp
  have minute: "MinFromTime T = mi"
    unfolding MinFromTime_def msPerMinute_def
    using m60 by (rule int_mod_pos_eq) (use mi in simp_all)
  have h24: "(T div 60000) div 60 = 24 * (DayFromYear y + dw) + h"
    using m60 by (rule int_div_pos_eq) (use mi in simp_all)
  have hour: "HourFromTime T = h"
    unfolding Hour_of_minute msPerMinute_def
    using h24 by (rule int_mod_pos_eq) (use h in simp_all)
  show "tz_fields utc_format (civil_ms (y, m, d, h, mi)) = (y, m, d, h, mi)"
    unfolding T_def [symmetric] tz_fields_utc year month date hour minute ..
  show "civil_ms (y, m, d, h, mi) mod 60000 = 0"
    unfolding T_def [symmetric] by (rule mod0)
qed

lemma Date_UTC_civil_ms:
  assumes "year < 0 \<or> 99 < year"
  shows "Date_UTC year month day hour minute 0 = TimeClip (civil_ms (year, month, day, hour, minute))"
  using assms by (auto simp add: Date_UTC_def Let_def)

lemma tz_fields_fixed_offset:
  "tz_fields (fixed_offset_format off) t = tz_fields utc_format (t + off)"
  by (simp add: tz_fields_def fixed_offset_format_def)

text \<open>
  Where a formatter shows the UTC fields of the instant shifted by a fixed offset, a
  well-formed civil time occurs during the minute that starts at its UTC reading minus
  the offset.
\<close>

lemma shifted_utc_occurrence:
  assumes shift: "\<forall>t. low \<le> t \<and> t \<le> high \<longrightarrow> tz_fields fmt t = tz_fields utc_format (t + off)"
    and wf: "well_formed_civil target"
    and A: "low \<le> civil_ms target - off" "civil_ms target - off + 59999 \<le> high"
  shows "occurrence fmt target low high"
proof -
  obtain y m d h mi where target: "target = (y, m, d, h, mi)"
    by (cases target rule: prod_cases5)
  define r where "r = civil_ms target"
  have fields: "tz_fields utc_format r = target" and r0: "r mod 60000 = 0"
    using civil_fields_inverse [of y m d h mi] wf unfolding r_def target by simp_all
  have mono: "nondecreasing fmt low high"
    unfolding nondecreasing_def
  proof (intro allI impI)
    fix t1 t2 :: int
    assume "low \<le> t1 \<and> t1 \<le> t2 \<and> t2 \<le> high"
    then have "tz_fields fmt t1 = tz_fields utc_format (t1 + off)"
      "tz_fields fmt t2 = tz_fields utc_format (t2 + off)" "t1 + off \<le> t2 + off"
      using shift by simp_all
    then show "comparison (tz_fields fmt t1) (tz_fields fmt t2) \<le> 0"
      using utc_fields_mono by simp
  qed
  have inside: "\<forall>t. r - off \<le> t \<and> t \<le> r - off + 59999 \<longrightarrow> tz_fields fmt t = target"
  proof (intro allI impI)
    fix t
    assume t: "r - off \<le> t \<and> t \<le> r - off + 59999"
    then have "low \<le> t \<and> t \<le> high" using A unfolding r_def by linarith
    then have "tz_fields fmt t = tz_fields utc_format (t + off)" using shift by blast
    also have "\<dots> = tz_fields utc_format r"
      using t by (intro utc_fields_of_minute same_minute [OF r0]) linarith+
    finally show "tz_fields fmt t = target" using fields by simp
  qed
  show ?thesis
    using mono A(1) _ A(2) inside unfolding r_def [symmetric]
    by (rule nondecreasing_occurrence) simp
qed

text \<open>The resolver finds every civil time that is resolvable in the window of its rough date.\<close>

lemma resolvable_round_trip:
  assumes "host tz = Some fmt" and "Date_UTC y m d h mi 0 = Date rough"
    and "\<bar>rough\<bar> \<le> 8640000000000000 - 86400000"
    and "resolvable fmt (y, m, d, h, mi) (rough - 86400000) (rough + 86400000)"
  shows "\<exists>t. createDateInTimezone host y m d h mi tz = Inr (Date t) \<and>
           tz_fields fmt t = (y, m, d, h, mi)"
proof -
  have "(rough + 86400000) - (rough - 86400000) + 1 < (165::int) * 2 ^ 20"
    by simp
  moreover have "- 8640000000000000 \<le> rough - 86400000" "rough + 86400000 \<le> 8640000000000000"
    using assms(3) by linarith+
  ultimately show ?thesis
    unfolding createDateInTimezone_search [of host tz fmt y m d h mi rough, OF assms(1,2)]
    using assms(4) by (intro search_finds)
qed

text \<open>
  In a zone with a fixed offset the round trip holds for every well-formed civil time
  whose year is not one of 0 to 99.
\<close>

lemma fixed_offset_round_trip:
  assumes host: "host tz = Some (fixed_offset_format off)"
    and off: "- 86340001 \<le> off" "off \<le> 86400000"
    and wf: "well_formed_civil (y, m, d, h, mi)"
    and year: "y < 0 \<or> 99 < y"
    and range: "\<bar>civil_ms (y, m, d, h, mi)\<bar> \<le> 8640000000000000 - 86400000"
  shows "\<exists>t. createDateInTimezone host y m d h mi tz = Inr (Date t) \<and>
           tz_fields (fixed_offset_format off) t = (y, m, d, h, mi)"
proof -
  let ?r = "civil_ms (y, m, d, h, mi)"
  have "\<bar>?r\<bar> \<le> 8640000000000000" using range by linarith
  then have rough: "Date_UTC y m d h mi 0 = Date ?r"
    unfolding Date_UTC_civil_ms [OF year] by (rule TimeClip_Date)
  have "occurrence (fixed_offset_format off) (y, m, d, h, mi) (?r - 86400000) (?r + 86400000)"
    using off by (intro shifted_utc_occurrence [where off = off] wf)
      (simp_all add: tz_fields_fixed_offset)
  then have "resolvable (fixed_offset_format off) (y, m, d, h, mi) (?r - 86400000) (?r + 86400000)"
    unfolding resolvable_def by blast
  with host rough range show ?thesis by (rule resolvable_round_trip)
qed

section \<open>Facts about the concrete zones\<close>

lemma two_zone_host_zones:
  "two_zone_host ''UTC'' = Some utc_format"
  "two_zone_host ''America/New_York'' = Some new_york_2024_format"
  by (simp_all add: two_zone_host_def)




lemma new_york_gap_tested:
  "tested 20 new_york_2024_format (2024, 2, 10, 2, 30)
     (1710037800000 - 86400000) (1710037800000 + 86400000) =
   [1710037800000, 1710081000000, 1710059400000, 1710048600000, 1710054000000,
    1710051300000, 1710052650000, 1710053325000, 1710053662500, 1710053831250,
    1710053915625, 1710053957812, 1710053978906, 1710053989453, 1710053994726,
    1710053997363, 1710053998681, 1710053999340, 1710053999670, 1710053999835]"
  by code_simp

lemma new_york_gap_no_match:
  "\<forall>t \<in> set (tested 20 new_york_2024_format (2024, 2, 10, 2, 30)
        (1710037800000 - 86400000) (1710037800000 + 86400000)).
      tz_fields new_york_2024_format t \<noteq> (2024, 2, 10, 2, 30)"
  unfolding new_york_gap_tested by code_simp

lemmas civil_eval =
  MakeDate_def MakeDay_def MakeTime_def DayFromYear_def DaysInYear_def
  DaysBeforeMonth_def msPerDay_def msPerHour_def msPerMinute_def msPerSecond_def
  days_in_month_def

lemma no_match_returns_rough:
  assumes "host tz = Some fmt" and "Date_UTC y m d h mi 0 = Date rough"
    and "\<bar>rough\<bar> \<le> 8640000000000000 - 86400000"
    and "\<forall>t \<in> set (tested 20 fmt (y, m, d, h, mi) (rough - 86400000) (rough + 86400000)).
           tz_fields fmt t \<noteq> (y, m, d, h, mi)"
  shows "createDateInTimezone host y m d h mi tz = Inr (Date rough)"
proof -
  have "- 8640000000000000 \<le> rough - 86400000" "rough + 86400000 \<le> 8640000000000000"
    using assms(3) by linarith+
  from search_no_match [OF window_20 this assms(4)] show ?thesis
    unfolding createDateInTimezone_search [of host tz fmt y m d h mi rough, OF assms(1,2)] .
qed

lemma new_york_gap_result:
  "createDateInTimezone two_zone_host 2024 2 10 2 30 ''America/New_York'' =
     Inr (Date 1710037800000)"
proof -
  have rough: "Date_UTC 2024 2 10 2 30 0 = Date 1710037800000"
    by (simp add: Date_UTC_eval)
  show ?thesis
    using no_match_returns_rough [of two_zone_host "''America/New_York''"
        new_york_2024_format 2024 2 10 2 30 1710037800000,
        OF two_zone_host_zones(2) rough _ new_york_gap_no_match]
    by simp
qed

lemma malformed_returns_rough:
  assumes "host tz = Some fmt" and "\<forall>t. well_formed_civil (tz_fields fmt t)"
    and "\<not> well_formed_civil (y, m, d, h, mi)"
    and "Date_UTC y m d h mi 0 = Date rough"
    and "\<bar>rough\<bar> \<le> 8640000000000000 - 86400000"
  shows "createDateInTimezone host y m d h mi tz = Inr (Date rough)"
proof -
  have "\<forall>t \<in> set (tested 20 fmt (y, m, d, h, mi) (rough - 86400000) (rough + 86400000)).
           tz_fields fmt t \<noteq> (y, m, d, h, mi)"
    using assms(2,3) by metis
  with assms(1,4,5) show ?thesis by (rule no_match_returns_rough)
qed





section \<open>The resolver: claims\<close>




text \<open>
  Claim C10. Whenever \<open>createDateInTimezone\<close> returns, the zone is known to the host,
  the rough date is valid and the result is a valid date within 24 hours of it: the
  rough date itself or an instant that the search tested. It does return when the zone
  is known and the window around the rough date lies in the range of time values.
\<close>

theorem createDateInTimezone_within_window:
  "(\<forall>r. createDateInTimezone host y m d h mi tz = Inr r \<longrightarrow>
      (\<exists>fmt rough t. host tz = Some fmt \<and> Date_UTC y m d h mi 0 = Date rough \<and> r = Date t \<and>
         rough - 86400000 \<le> t \<and> t \<le> rough + 86400000 \<and>
         (t = rough \<or>
          t \<in> set (tested 20 fmt (y, m, d, h, mi) (rough - 86400000) (rough + 86400000))))) \<and>
   (\<forall>fmt rough. host tz = Some fmt \<and> Date_UTC y m d h mi 0 = Date rough \<and>
      \<bar>rough\<bar> \<le> 8640000000000000 - 86400000 \<longrightarrow>
      (\<exists>r. createDateInTimezone host y m d h mi tz = Inr r))"
proof (intro conjI allI impI)
  fix r
  assume res: "createDateInTimezone host y m d h mi tz = Inr r"
  then obtain fmt where fmt: "host tz = Some fmt"
    by (cases "host tz") (simp_all add: createDateInTimezone_def)
  from res fmt obtain rough where rough: "Date_UTC y m d h mi 0 = Date rough"
    by (cases "Date_UTC y m d h mi 0") (simp_all add: createDateInTimezone_def)
  let ?low = "rough - 86400000" and ?high = "rough + 86400000"
  from res have "search 20 fmt y m d h mi ?low ?high (Date rough) = Inr r"
    unfolding createDateInTimezone_search [of host tz fmt y m d h mi rough, OF fmt rough] .
  from search_result_tested [OF this]
  consider "r = Date rough"
    | t where "t \<in> set (tested 20 fmt (y, m, d, h, mi) ?low ?high)" "r = Date t"
    by blast
  then show "\<exists>fmt rough t. host tz = Some fmt \<and> Date_UTC y m d h mi 0 = Date rough \<and>
         r = Date t \<and> rough - 86400000 \<le> t \<and> t \<le> rough + 86400000 \<and>
         (t = rough \<or>
          t \<in> set (tested 20 fmt (y, m, d, h, mi) (rough - 86400000) (rough + 86400000)))"
  proof cases
    case 1
    with fmt rough show ?thesis by auto
  next
    case 2
    from tested_in_window [OF window_20 2(1)] have "?low \<le> t \<and> t \<le> ?high" .
    with fmt rough 2 show ?thesis by blast
  qed
next
  fix fmt rough
  assume h: "host tz = Some fmt \<and> Date_UTC y m d h mi 0 = Date rough \<and>
      \<bar>rough\<bar> \<le> 8640000000000000 - 86400000"
  then have "- 8640000000000000 \<le> rough - 86400000" "rough + 86400000 \<le> 8640000000000000"
    by linarith+
  from search_returns [OF window_20 this]
  show "\<exists>r. createDateInTimezone host y m d h mi tz = Inr r"
    using h createDateInTimezone_search [of host tz fmt y m d h mi rough] by simp
qed

theorem createDateInTimezone_within_window_witness:
  "two_zone_host ''America/New_York'' = Some new_york_2024_format \<and>
   Date_UTC 2024 2 10 3 30 0 = Date 1710041400000 \<and>
   (\<exists>t. createDateInTimezone two_zone_host 2024 2 10 3 30 ''America/New_York'' =
          Inr (Date t) \<and>
        1710041400000 - 86400000 \<le> t \<and> t \<le> 1710041400000 + 86400000)"
proof -
  note inst = createDateInTimezone_within_window
    [of two_zone_host 2024 2 10 3 30 "''America/New_York''"]
  have rough: "Date_UTC 2024 2 10 3 30 0 = Date 1710041400000"
    by (simp add: Date_UTC_eval)
  from inst [THEN conjunct2, rule_format, of new_york_2024_format 1710041400000]
  obtain r where r: "createDateInTimezone two_zone_host 2024 2 10 3 30 ''America/New_York'' =
      Inr r"
    using two_zone_host_zones(2) rough by auto
  from inst [THEN conjunct1, rule_format, OF r]
  obtain rough' t where "Date_UTC 2024 2 10 3 30 0 = Date rough'" "r = Date t"
    "rough' - 86400000 \<le> t" "t \<le> rough' + 86400000"
    by blast
  with rough r two_zone_host_zones(2) show ?thesis by auto
qed

text \<open>
  Claim C3. When no instant that the search tests shows all five fields of the target,
  \<open>createDateInTimezone\<close> does not fail; it returns the rough date, the civil fields
  read as UTC, with which \<open>bestDate\<close> starts and which only an exact match replaces.
\<close>

theorem createDateInTimezone_no_match:
  assumes "host tz = Some fmt" and "Date_UTC y m d h mi 0 = Date rough"
    and "\<bar>rough\<bar> \<le> 8640000000000000 - 86400000"
    and "\<forall>t \<in> set (tested 20 fmt (y, m, d, h, mi) (rough - 86400000) (rough + 86400000)).
           tz_fields fmt t \<noteq> (y, m, d, h, mi)"
  shows "createDateInTimezone host y m d h mi tz = Inr (Date rough)"
proof -
  have range: "- 8640000000000000 \<le> rough - 86400000"
    "rough + 86400000 \<le> 8640000000000000"
    using assms(3) by linarith+
  have "search 20 fmt y m d h mi (rough - 86400000) (rough + 86400000) (Date rough) =
      Inr (Date rough)"
    using window_20 range assms(4) by (rule search_no_match)
  then show ?thesis
    unfolding createDateInTimezone_search [of host tz fmt y m d h mi rough, OF assms(1,2)] .
qed

theorem createDateInTimezone_no_match_witness:
  "two_zone_host ''America/New_York'' = Some new_york_2024_format \<and>
   Date_UTC 2024 2 10 2 30 0 = Date 1710037800000 \<and>
   list_all (\<lambda>t. tz_fields new_york_2024_format t \<noteq> (2024, 2, 10, 2, 30))
     (tested 20 new_york_2024_format (2024, 2, 10, 2, 30)
        (1710037800000 - 86400000) (1710037800000 + 86400000)) \<and>
   createDateInTimezone two_zone_host 2024 2 10 2 30 ''America/New_York'' =
     Inr (Date 1710037800000)"
proof -
  have rough: "Date_UTC 2024 2 10 2 30 0 = Date 1710037800000"
    by (simp add: Date_UTC_eval)
  have "createDateInTimezone two_zone_host 2024 2 10 2 30 ''America/New_York'' =
     Inr (Date 1710037800000)"
    using createDateInTimezone_no_match [of two_zone_host "''America/New_York''"
        new_york_2024_format 2024 2 10 2 30 1710037800000,
        OF two_zone_host_zones(2) rough _ new_york_gap_no_match]
    by simp
  with rough new_york_gap_no_match two_zone_host_zones(2) show ?thesis
    unfolding list_all_iff by blast
qed

text \<open>
  For 02:30 on 10 March 2024 in New York, a time in the spring-forward gap, the result
  is 02:30 UTC, which New York shows as 21:30 on 9 March: five hours of wall-clock time
  from the request. The search also tested 07:00 UTC, which New York shows as 03:00 on 10
  March, half an hour from the request.
\<close>

theorem createDateInTimezone_gap_counterexample:
  "createDateInTimezone two_zone_host 2024 2 10 2 30 ''America/New_York'' =
     Inr (Date 1710037800000) \<and>
   1710054000000 \<in> set (tested 20 new_york_2024_format (2024, 2, 10, 2, 30)
        (1710037800000 - 86400000) (1710037800000 + 86400000)) \<and>
   tz_fields new_york_2024_format 1710037800000 = (2024, 2, 9, 21, 30) \<and>
   tz_fields new_york_2024_format 1710054000000 = (2024, 2, 10, 3, 0) \<and>
   civil_distance new_york_2024_format (2024, 2, 10, 2, 30) 1710037800000 = 18000000 \<and>
   civil_distance new_york_2024_format (2024, 2, 10, 2, 30) 1710054000000 = 1800000"
proof -
  have f1: "tz_fields new_york_2024_format 1710037800000 = (2024, 2, 9, 21, 30)"
    and f2: "tz_fields new_york_2024_format 1710054000000 = (2024, 2, 10, 3, 0)"
    by code_simp+
  have d1: "civil_distance new_york_2024_format (2024, 2, 10, 2, 30) 1710037800000 = 18000000"
    unfolding civil_distance_def f1 by (simp add: civil_eval)
  have d2: "civil_distance new_york_2024_format (2024, 2, 10, 2, 30) 1710054000000 = 1800000"
    unfolding civil_distance_def f2 by (simp add: civil_eval)
  have "1710054000000 \<in> set (tested 20 new_york_2024_format (2024, 2, 10, 2, 30)
        (1710037800000 - 86400000) (1710037800000 + 86400000))"
    unfolding new_york_gap_tested by simp
  with new_york_gap_result f1 f2 d1 d2 show ?thesis by blast
qed

text \<open>
  Claim C4. No civil input is rejected for its fields: the function checks none of them.
  With a formatter that shows only well-formed civil times, an input whose fields are
  not well-formed is resolved to its rough date, which is the date that \<open>Date.UTC\<close>
  rolls the fields over to.
\<close>

theorem createDateInTimezone_malformed:
  assumes "host tz = Some fmt" and "\<forall>t. well_formed_civil (tz_fields fmt t)"
    and "\<not> well_formed_civil (y, m, d, h, mi)"
    and "Date_UTC y m d h mi 0 = Date rough"
    and "\<bar>rough\<bar> \<le> 8640000000000000 - 86400000"
  shows "createDateInTimezone host y m d h mi tz = Inr (Date rough)"
proof -
  have never: "\<forall>t \<in> set (tested 20 fmt (y, m, d, h, mi) (rough - 86400000) (rough + 86400000)).
      tz_fields fmt t \<noteq> (y, m, d, h, mi)"
    using assms(2,3) by metis
  have range: "- 8640000000000000 \<le> rough - 86400000"
    "rough + 86400000 \<le> 8640000000000000"
    using assms(5) by linarith+
  have "search 20 fmt y m d h mi (rough - 86400000) (rough + 86400000) (Date rough) =
      Inr (Date rough)"
    using window_20 range never by (rule search_no_match)
  then show ?thesis
    unfolding createDateInTimezone_search [of host tz fmt y m d h mi rough, OF assms(1,4)] .
qed

theorem createDateInTimezone_malformed_witness:
  "two_zone_host ''UTC'' = Some utc_format \<and>
   (\<forall>t. well_formed_civil (tz_fields utc_format t)) \<and>
   \<not> well_formed_civil (2024, 1, 30, 0, 0) \<and>
   Date_UTC 2024 1 30 0 0 0 = Date 1709251200000 \<and>
   createDateInTimezone two_zone_host 2024 1 30 0 0 ''UTC'' = Inr (Date 1709251200000)"
proof -
  have wf: "\<forall>t. well_formed_civil (tz_fields utc_format t)"
    using utc_format_well_formed by blast
  have bad: "\<not> well_formed_civil (2024, 1, 30, 0, 0)"
    by (simp add: days_in_month_def DaysInYear_def)
  have rough: "Date_UTC 2024 1 30 0 0 0 = Date 1709251200000"
    by (simp add: Date_UTC_eval)
  have "createDateInTimezone two_zone_host 2024 1 30 0 0 ''UTC'' = Inr (Date 1709251200000)"
    using createDateInTimezone_malformed [of two_zone_host "''UTC''" utc_format
        2024 1 30 0 0 1709251200000, OF two_zone_host_zones(1) wf bad rough]
    by simp
  with wf bad rough two_zone_host_zones(1) show ?thesis by blast
qed

text \<open>
  Month 12 of 2024 is resolved, in UTC, to the first of January 2025, with no error.
\<close>

theorem createDateInTimezone_month_12_counterexample:
  "\<not> well_formed_civil (2024, 12, 1, 0, 0) \<and>
   createDateInTimezone two_zone_host 2024 12 1 0 0 ''UTC'' = Inr (Date 1735689600000) \<and>
   tz_fields utc_format 1735689600000 = (2025, 0, 1, 0, 0)"
proof -
  have wf: "\<forall>t. well_formed_civil (tz_fields utc_format t)"
    using utc_format_well_formed by blast
  have bad: "\<not> well_formed_civil (2024, 12, 1, 0, 0)"
    by simp
  have rough: "Date_UTC 2024 12 1 0 0 0 = Date 1735689600000"
    by (simp add: Date_UTC_eval)
  have res: "createDateInTimezone two_zone_host 2024 12 1 0 0 ''UTC'' = Inr (Date 1735689600000)"
    using malformed_returns_rough [of two_zone_host "''UTC''" utc_format
        2024 12 1 0 0 1735689600000, OF two_zone_host_zones(1) wf bad rough]
    by simp
  have "tz_fields utc_format 1735689600000 = (2025, 0, 1, 0, 0)"
    by code_simp
  with bad res show ?thesis by blast
qed

end
